theory Spec2Isabelle
  imports Complex_Main "HOL-Library.Sublist"
begin

section \<open>Request values and errors\<close>

text \<open>
  The handlers receive their fields as \<^verbatim>\<open>unknown\<close> values and inspect them with
  \<^verbatim>\<open>typeof\<close>, \<^verbatim>\<open>Array.isArray\<close> and \<^verbatim>\<open>isNaN\<close>. A request value is one of the
  values a decoded request object can hold. A number is a rational (every finite double
  is one) or \<open>NaN\<close>, which the source tests for; the infinities are left out.
  Strings are byte strings in UTF-8.
\<close>

datatype jsval =
    JUndefined
  | JNull
  | JBool bool
  | JNaN
  | JNum rat
  | JStr string
  | JArr "jsval list"
  | JObj "(string \<times> jsval) list"

text \<open>
  \<^verbatim>\<open>class ValidationError extends Error { code = "validation_error" }\<close> and
  \<^verbatim>\<open>class EngineError extends Error { code: string }\<close>: a thrown error is the
  \<open>Inl\<close> branch of a handler's result.
\<close>

datatype error =
    ValidationError string
  | EngineError string string

fun error_code :: "error \<Rightarrow> string" where
  "error_code (ValidationError msg) = ''validation_error''"
| "error_code (EngineError code msg) = code"

fun error_message :: "error \<Rightarrow> string" where
  "error_message (ValidationError msg) = msg"
| "error_message (EngineError code msg) = msg"

subsection \<open>String helpers of the host language\<close>

text \<open>
  \<^verbatim>\<open>String.prototype.trim\<close> on strings in UTF-8: it strips from both ends the code
  points that the language counts as white space or line terminators, here with their
  encodings: U+0009 to U+000D, U+0020, U+00A0, U+1680, U+2000 to U+200A, U+2028, U+2029,
  U+202F, U+205F, U+3000 and U+FEFF.
\<close>

definition white_space :: "string list" where
  "white_space =
     [[CHR 0x09], [CHR 0x0A], [CHR 0x0B], [CHR 0x0C], [CHR 0x0D], [CHR 0x20],
      [CHR 0xC2, CHR 0xA0], [CHR 0xE1, CHR 0x9A, CHR 0x80],
      [CHR 0xE2, CHR 0x80, CHR 0x80], [CHR 0xE2, CHR 0x80, CHR 0x81],
      [CHR 0xE2, CHR 0x80, CHR 0x82], [CHR 0xE2, CHR 0x80, CHR 0x83],
      [CHR 0xE2, CHR 0x80, CHR 0x84], [CHR 0xE2, CHR 0x80, CHR 0x85],
      [CHR 0xE2, CHR 0x80, CHR 0x86], [CHR 0xE2, CHR 0x80, CHR 0x87],
      [CHR 0xE2, CHR 0x80, CHR 0x88], [CHR 0xE2, CHR 0x80, CHR 0x89],
      [CHR 0xE2, CHR 0x80, CHR 0x8A], [CHR 0xE2, CHR 0x80, CHR 0xA8],
      [CHR 0xE2, CHR 0x80, CHR 0xA9], [CHR 0xE2, CHR 0x80, CHR 0xAF],
      [CHR 0xE2, CHR 0x81, CHR 0x9F], [CHR 0xE3, CHR 0x80, CHR 0x80],
      [CHR 0xEF, CHR 0xBB, CHR 0xBF]]"

text \<open>The length of the first of the given sequences that the string starts with, or 0.\<close>

definition leading_of :: "string list \<Rightarrow> string \<Rightarrow> nat" where
  "leading_of ws s =
     (case find (\<lambda>w. w \<noteq> [] \<and> prefix w s) ws of None \<Rightarrow> 0 | Some w \<Rightarrow> length w)"

function strip_leading :: "string list \<Rightarrow> string \<Rightarrow> string" where
  "strip_leading ws s =
     (if leading_of ws s = 0 then s else strip_leading ws (drop (leading_of ws s) s))"
  by pat_completeness auto
termination
proof (relation "measure (\<lambda>(ws, s). length s)")
  show "wf (measure (\<lambda>(ws, s). length s))" by simp
next
  fix ws :: "string list" and s :: string
  assume a: "leading_of ws s \<noteq> 0"
  then obtain w where "find (\<lambda>w. w \<noteq> [] \<and> prefix w s) ws = Some w"
    by (auto simp: leading_of_def split: option.splits)
  then have "w \<noteq> [] \<and> prefix w s" by (auto simp: find_Some_iff)
  then have "s \<noteq> []" by auto
  with a show "((ws, drop (leading_of ws s) s), (ws, s)) \<in> measure (\<lambda>(ws, s). length s)"
    by simp
qed

declare strip_leading.simps [simp del]

definition trim :: "string \<Rightarrow> string" where
  "trim s = rev (strip_leading (map rev white_space) (rev (strip_leading white_space s)))"

text \<open>
  Decimal rendering of a whole number, as a template literal prints it. \<open>digit_char\<close>
  is only applied to numbers below 10.
\<close>

definition digit_char :: "nat \<Rightarrow> char" where
  "digit_char d = ''0123456789'' ! d"

fun show_nat :: "nat \<Rightarrow> string" where
  "show_nat n = (if n < 10 then [digit_char n] else show_nat (n div 10) @ [digit_char (n mod 10)])"

declare show_nat.simps [simp del]

definition show_int :: "int \<Rightarrow> string" where
  "show_int i = (if i < 0 then CHR ''-'' # show_nat (nat (- i)) else show_nat (nat i))"

section \<open>Validation helpers (validate.ts)\<close>

definition requireString :: "jsval \<Rightarrow> string \<Rightarrow> error + string" where
  "requireString v field =
     (case v of
        JStr s \<Rightarrow>
          if length (trim s) = 0
          then Inl (ValidationError (field @ '' is required and must be a non-empty string''))
          else Inr (trim s)
      | _ \<Rightarrow> Inl (ValidationError (field @ '' is required and must be a non-empty string'')))"

definition optionalString :: "jsval \<Rightarrow> string \<Rightarrow> error + string option" where
  "optionalString v field =
     (case v of
        JUndefined \<Rightarrow> Inr None
      | JNull \<Rightarrow> Inr None
      | JStr s \<Rightarrow> Inr (Some s)
      | _ \<Rightarrow> Inl (ValidationError (field @ '' must be a string'')))"

definition requireArray :: "jsval \<Rightarrow> string \<Rightarrow> error + jsval list" where
  "requireArray v field =
     (case v of
        JArr xs \<Rightarrow>
          if length xs = 0
          then Inl (ValidationError (field @ '' is required and must be a non-empty array''))
          else Inr xs
      | _ \<Rightarrow> Inl (ValidationError (field @ '' is required and must be a non-empty array'')))"

definition optionalArray :: "jsval \<Rightarrow> string \<Rightarrow> error + jsval list option" where
  "optionalArray v field =
     (case v of
        JUndefined \<Rightarrow> Inr None
      | JNull \<Rightarrow> Inr None
      | JArr xs \<Rightarrow> Inr (Some xs)
      | _ \<Rightarrow> Inl (ValidationError (field @ '' must be an array'')))"

text \<open>
  The bounds \<^verbatim>\<open>min\<close> and \<^verbatim>\<open>max\<close> are whole numbers at every call site
  (\<^verbatim>\<open>0, 10\<close> and \<^verbatim>\<open>1, 20\<close>); the message prints them with \<^verbatim>\<open>${min}\<close>.
\<close>

definition optionalNumber :: "jsval \<Rightarrow> string \<Rightarrow> int option \<Rightarrow> int option \<Rightarrow> error + rat option" where
  "optionalNumber v field mn mx =
     (case v of
        JUndefined \<Rightarrow> Inr None
      | JNull \<Rightarrow> Inr None
      | JNum x \<Rightarrow>
          (case mn of
             Some lo \<Rightarrow>
               if x < of_int lo
               then Inl (ValidationError (field @ '' must be >= '' @ show_int lo))
               else (case mx of
                       Some hi \<Rightarrow>
                         if of_int hi < x
                         then Inl (ValidationError (field @ '' must be <= '' @ show_int hi))
                         else Inr (Some x)
                     | None \<Rightarrow> Inr (Some x))
           | None \<Rightarrow>
               (case mx of
                  Some hi \<Rightarrow>
                    if of_int hi < x
                    then Inl (ValidationError (field @ '' must be <= '' @ show_int hi))
                    else Inr (Some x)
                | None \<Rightarrow> Inr (Some x)))
      | _ \<Rightarrow> Inl (ValidationError (field @ '' must be a number'')))"

definition optionalBoolean :: "jsval \<Rightarrow> string \<Rightarrow> error + bool option" where
  "optionalBoolean v field =
     (case v of
        JUndefined \<Rightarrow> Inr None
      | JNull \<Rightarrow> Inr None
      | JBool b \<Rightarrow> Inr (Some b)
      | _ \<Rightarrow> Inl (ValidationError (field @ '' must be a boolean'')))"

definition requireObject :: "jsval \<Rightarrow> string \<Rightarrow> error + (string \<times> jsval) list" where
  "requireObject v field =
     (case v of
        JObj kvs \<Rightarrow> Inr kvs
      | _ \<Rightarrow> Inl (ValidationError (field @ '' is required and must be an object'')))"

text \<open>An error names a field when it is a validation error whose message contains it.\<close>

definition names_field :: "error \<Rightarrow> string \<Rightarrow> bool" where
  "names_field e field =
     (case e of ValidationError msg \<Rightarrow> sublist field msg | EngineError code msg \<Rightarrow> False)"

section \<open>The node and edge store\<close>

text \<open>
  A node and an edge as section 3 of the specification and the handlers' result types give
  them (the declarations of \<^verbatim>\<open>types.ts\<close>). \<open>n_state\<close> and \<open>n_properties\<close>
  are opaque to the engine. The store is the nodes relation and the edges relation, each in
  insertion order.
\<close>

record node =
  n_id :: string
  n_project :: string
  n_parent :: "string option"
  n_summary :: string
  n_resolved :: bool
  n_state :: jsval
  n_properties :: "(string \<times> jsval) list"
  n_discovery :: "string option"
  n_blocked :: bool
  n_created_by :: string
  n_created_at :: string
  n_updated_at :: string

record edge =
  e_from_node :: string
  e_to_node :: string
  e_type :: string
  e_created_at :: string

record store =
  nodes :: "node list"
  edges :: "edge list"

subsection \<open>Store primitives (nodes.ts, edges.ts)\<close>

text \<open>
  Modelled from the spec: \<^verbatim>\<open>getNode\<close> of \<^verbatim>\<open>nodes.ts\<close>, which is not among the
  sources. Section 4.1: get node; the lookup is by the node's unique id.
\<close>

definition getNode :: "store \<Rightarrow> string \<Rightarrow> node option" where
  "getNode st i = find (\<lambda>n. n_id n = i) (nodes st)"

text \<open>
  Modelled from the spec: \<^verbatim>\<open>getNodeOrThrow\<close> of \<^verbatim>\<open>nodes.ts\<close>. Section 4.1: get
  node (fails with NotFound if absent); section 7: an engine error returns a stable code
  plus a human-readable message.
\<close>

definition getNodeOrThrow :: "store \<Rightarrow> string \<Rightarrow> error + node" where
  "getNodeOrThrow st i =
     (case getNode st i of
        None \<Rightarrow> Inl (EngineError ''node_not_found'' (''Node not found: '' @ i))
      | Some n \<Rightarrow> Inr n)"

text \<open>
  Modelled from the spec: \<^verbatim>\<open>getChildren\<close> of \<^verbatim>\<open>nodes.ts\<close>. Section 4.1: list
  children of a node (parent-ordered, insertion order).
\<close>

definition getChildren :: "store \<Rightarrow> string \<Rightarrow> node list" where
  "getChildren st i = filter (\<lambda>n. n_parent n = Some i) (nodes st)"

text \<open>An entry of the \<^verbatim>\<open>ancestors\<close> array of \<^verbatim>\<open>ContextResult\<close>.\<close>

record ancestor =
  a_id :: string
  a_summary :: string
  a_resolved :: bool

text \<open>
  Modelled from the spec: the walk of \<^verbatim>\<open>getAncestors\<close> up the parent references,
  the farthest ancestor first. It takes at most as many steps as its second argument
  allows.
\<close>

fun ancestor_chain :: "store \<Rightarrow> nat \<Rightarrow> string option \<Rightarrow> node list" where
  "ancestor_chain st 0 p = []"
| "ancestor_chain st (Suc k) None = []"
| "ancestor_chain st (Suc k) (Some pid) =
     (case getNode st pid of
        None \<Rightarrow> []
      | Some a \<Rightarrow> ancestor_chain st k (n_parent a) @ [a])"

text \<open>
  Modelled from the spec: \<^verbatim>\<open>getAncestors\<close> of \<^verbatim>\<open>nodes.ts\<close>. Section 4.1: list
  ancestors of a node (root-to-immediate-parent order). The walk takes at most as many
  steps as there are stored nodes, which covers every chain of an acyclic parent relation
  (invariant 1).
\<close>

definition getAncestors :: "store \<Rightarrow> string \<Rightarrow> ancestor list" where
  "getAncestors st i =
     (case getNode st i of
        None \<Rightarrow> []
      | Some n \<Rightarrow>
          map (\<lambda>a. \<lparr>a_id = n_id a, a_summary = n_summary a, a_resolved = n_resolved a\<rparr>)
            (ancestor_chain st (length (nodes st)) (n_parent n)))"

text \<open>
  Modelled from the spec: \<^verbatim>\<open>getProjectRoot\<close> of \<^verbatim>\<open>nodes.ts\<close>. Section 3: all
  nodes in a project form one forest rooted at a project-root node (parent = none,
  project = P).
\<close>

definition getProjectRoot :: "store \<Rightarrow> string \<Rightarrow> node option" where
  "getProjectRoot st p = find (\<lambda>n. n_project n = p \<and> n_parent n = None) (nodes st)"

text \<open>An entry of the \<^verbatim>\<open>projects\<close> array of \<^verbatim>\<open>OpenResult\<close>.\<close>

record project_info =
  pi_project :: string
  pi_id :: string
  pi_summary :: string
  pi_total :: nat
  pi_resolved :: nat
  pi_unresolved :: nat
  pi_updated_at :: string

text \<open>
  Modelled from the spec: \<^verbatim>\<open>listProjects\<close> of \<^verbatim>\<open>nodes.ts\<close>. Section 4.1: list
  projects with aggregate counts, one entry for each project root.
\<close>

definition listProjects :: "store \<Rightarrow> project_info list" where
  "listProjects st =
     map (\<lambda>r.
        let members = filter (\<lambda>n. n_project n = n_project r) (nodes st);
            done = filter n_resolved members
        in \<lparr>pi_project = n_project r, pi_id = n_id r, pi_summary = n_summary r,
            pi_total = length members, pi_resolved = length done,
            pi_unresolved = length members - length done,
            pi_updated_at = n_updated_at r\<rparr>)
       (filter (\<lambda>n. n_parent n = None) (nodes st))"

text \<open>The \<^verbatim>\<open>{resolved, total}\<close> pair of a progress report.\<close>

record progress =
  pr_resolved :: nat
  pr_total :: nat

text \<open>
  Modelled from the spec: the descendant set that \<^verbatim>\<open>getSubtreeProgress\<close> counts,
  the node and everything below it through the child relation, down to as many levels as
  the second argument allows.
\<close>

fun subtree :: "store \<Rightarrow> nat \<Rightarrow> node \<Rightarrow> node list" where
  "subtree st 0 n = [n]"
| "subtree st (Suc k) n = n # concat (map (subtree st k) (getChildren st (n_id n)))"

text \<open>
  Modelled from the spec: \<^verbatim>\<open>getSubtreeProgress\<close> of \<^verbatim>\<open>nodes.ts\<close>. Section 4.1:
  get subtree progress \<open>{resolved, total}\<close> for a node's descendant set without
  materializing the whole subtree. Descending as many levels as there are stored nodes
  reaches the whole subtree when the parent relation has no cycle (invariant 1; lemma
  \<open>acyclic_settled\<close> below).
\<close>

definition getSubtreeProgress :: "store \<Rightarrow> string \<Rightarrow> progress" where
  "getSubtreeProgress st i =
     (case getNode st i of
        None \<Rightarrow> \<lparr>pr_resolved = 0, pr_total = 0\<rparr>
      | Some n \<Rightarrow>
          let ns = subtree st (length (nodes st)) n
          in \<lparr>pr_resolved = length (filter n_resolved ns), pr_total = length ns\<rparr>)"

text \<open>
  The nodes at a given depth below a node, and two conditions on a store: ids are unique
  (a lookup by a stored node's id finds that node), and the descent has settled (below no
  node does one level more than the number of stored nodes find anything new).
\<close>

fun level :: "store \<Rightarrow> nat \<Rightarrow> node \<Rightarrow> node list" where
  "level st 0 n = [n]"
| "level st (Suc k) n = concat (map (level st k) (getChildren st (n_id n)))"

text \<open>Invariant 1, acyclicity: no stored node lies below itself.\<close>

definition acyclic_parents :: "store \<Rightarrow> bool" where
  "acyclic_parents st = (\<forall>n\<in>set (nodes st). \<forall>k. 0 < k \<longrightarrow> n \<notin> set (level st k n))"

definition unique_ids :: "store \<Rightarrow> bool" where
  "unique_ids st = list_all (\<lambda>n. getNode st (n_id n) = Some n) (nodes st)"

definition settled :: "store \<Rightarrow> bool" where
  "settled st =
     list_all (\<lambda>n. subtree st (Suc (length (nodes st))) n = subtree st (length (nodes st)) n)
       (nodes st)"

text \<open>The argument of \<^verbatim>\<open>createNode\<close> as \<^verbatim>\<open>handleOpen\<close> passes it.\<close>

record create_input =
  ci_project :: string
  ci_summary :: string
  ci_discovery :: string
  ci_agent :: string

text \<open>
  Modelled from the spec: \<^verbatim>\<open>createNode\<close> of \<^verbatim>\<open>nodes.ts\<close>, called with the fields
  \<^verbatim>\<open>{project, summary, discovery, agent}\<close> and no parent. Section 3: the node gets a
  unique id, is unresolved, and carries its provenance and two timestamps. The fresh id
  and the current time are supplied by the caller of the model.
\<close>

definition createNode :: "store \<Rightarrow> string \<Rightarrow> string \<Rightarrow> create_input \<Rightarrow> node \<times> store" where
  "createNode st new_id now inp =
     (let n = \<lparr>n_id = new_id, n_project = ci_project inp, n_parent = None,
               n_summary = ci_summary inp, n_resolved = False, n_state = JNull,
               n_properties = [], n_discovery = Some (ci_discovery inp), n_blocked = False,
               n_created_by = ci_agent inp, n_created_at = now, n_updated_at = now\<rparr>
      in (n, st\<lparr>nodes := nodes st @ [n]\<rparr>))"

text \<open>
  Modelled from the spec: \<^verbatim>\<open>getEdgesFrom\<close> and \<^verbatim>\<open>getEdgesTo\<close> of
  \<^verbatim>\<open>edges.ts\<close>. Section 3: an edge is a typed directed relation between two nodes.
\<close>

definition getEdgesFrom :: "store \<Rightarrow> string \<Rightarrow> string \<Rightarrow> edge list" where
  "getEdgesFrom st i ty = filter (\<lambda>e. e_from_node e = i \<and> e_type e = ty) (edges st)"

definition getEdgesTo :: "store \<Rightarrow> string \<Rightarrow> string \<Rightarrow> edge list" where
  "getEdgesTo st i ty = filter (\<lambda>e. e_to_node e = i \<and> e_type e = ty) (edges st)"

section \<open>The context operation (tools/context.ts)\<close>

text \<open>
  The fields of a request. \<^verbatim>\<open>input?.node_id\<close> of an absent request or an absent
  field is \<^verbatim>\<open>undefined\<close>, here \<open>JUndefined\<close>.
\<close>

record ContextInput =
  cx_node_id :: jsval
  cx_depth :: jsval

datatype NodeTree =
  NodeTree (nt_id: string) (nt_summary: string) (nt_resolved: bool) (nt_state: jsval)
    (nt_children: "NodeTree list option") (nt_child_count: "nat option")

record dependency =
  d_node :: "node option"
  d_satisfied :: bool

record ContextResult =
  cr_node :: node
  cr_ancestors :: "ancestor list"
  cr_children :: NodeTree
  cr_depends_on :: "dependency list"
  cr_depended_by :: "dependency list"

text \<open>
  \<^verbatim>\<open>buildNodeTree(nodeId, currentDepth, maxDepth)\<close>. The second function is the
  \<^verbatim>\<open>children.map(...)\<close> of the source, whose callback may throw; its depth argument
  is already \<^verbatim>\<open>currentDepth + 1\<close>.
\<close>

function buildNodeTree :: "store \<Rightarrow> string \<Rightarrow> nat \<Rightarrow> rat \<Rightarrow> error + NodeTree"
  and buildNodeTree_map :: "store \<Rightarrow> node list \<Rightarrow> nat \<Rightarrow> rat \<Rightarrow> error + NodeTree list"
where
  "buildNodeTree st nodeId currentDepth maxDepth =
     (case getNodeOrThrow st nodeId of
        Inl e \<Rightarrow> Inl e
      | Inr n \<Rightarrow>
          let children = getChildren st nodeId in
          if length children = 0
          then Inr (NodeTree (n_id n) (n_summary n) (n_resolved n) (n_state n) None None)
          else if of_nat currentDepth < maxDepth
          then (case buildNodeTree_map st children (currentDepth + 1) maxDepth of
                  Inl e \<Rightarrow> Inl e
                | Inr ts \<Rightarrow>
                    Inr (NodeTree (n_id n) (n_summary n) (n_resolved n) (n_state n) (Some ts) None))
          else Inr (NodeTree (n_id n) (n_summary n) (n_resolved n) (n_state n) None
                      (Some (length children))))"
| "buildNodeTree_map st [] d maxDepth = Inr []"
| "buildNodeTree_map st (child # rest) d maxDepth =
     (case buildNodeTree st (n_id child) d maxDepth of
        Inl e \<Rightarrow> Inl e
      | Inr t \<Rightarrow>
          (case buildNodeTree_map st rest d maxDepth of
             Inl e \<Rightarrow> Inl e
           | Inr ts \<Rightarrow> Inr (t # ts)))"
  by pat_completeness auto
termination
  apply (relation "inv_image (less_than <*lex*> less_than) (\<lambda>x. case x of
          Inl (st, i, d, m) \<Rightarrow> (nat \<lceil>m\<rceil> + 1 - d, 0)
        | Inr (st, cs, d, m) \<Rightarrow> (nat \<lceil>m\<rceil> + 1 - d, length cs + 1))")
  subgoal by (intro wf_inv_image wf_lex_prod wf_less_than)
  subgoal for st nodeId currentDepth maxDepth
  proof -
    assume "of_nat currentDepth < maxDepth"
    then have "of_int (int currentDepth) < maxDepth" by simp
    then have "int currentDepth < \<lceil>maxDepth\<rceil>" by (simp only: less_ceiling_iff)
    then show ?thesis by auto
  qed
  subgoal by simp
  subgoal by simp
  done

text \<open>
  The nodes of a rendered tree at a given depth below its top: the tree itself at depth 0,
  the members of its \<^verbatim>\<open>children\<close> arrays one level down each.
\<close>

fun nt_level :: "nat \<Rightarrow> NodeTree \<Rightarrow> NodeTree list" where
  "nt_level 0 t = [t]"
| "nt_level (Suc k) t =
     concat (map (nt_level k) (case nt_children t of None \<Rightarrow> [] | Some cs \<Rightarrow> cs))"

text \<open>
  What \<^verbatim>\<open>buildNodeTree\<close> decides for a node at depth \<open>k\<close> under the limit \<open>d\<close>:
  a node without children carries neither field, a node above the limit carries all its
  children, in order, and a node at the limit carries their number.
\<close>

definition node_shape :: "store \<Rightarrow> rat \<Rightarrow> nat \<Rightarrow> NodeTree \<Rightarrow> bool" where
  "node_shape st d k s =
     (let cs = getChildren st (nt_id s) in
      if cs = [] then nt_children s = None \<and> nt_child_count s = None
      else if of_nat k < d
      then nt_child_count s = None \<and>
           map_option (map nt_id) (nt_children s) = Some (map n_id cs)
      else nt_children s = None \<and> nt_child_count s = Some (length cs))"

definition handleContext :: "store \<Rightarrow> ContextInput \<Rightarrow> error + ContextResult" where
  "handleContext st input =
     (case requireString (cx_node_id input) ''node_id'' of
        Inl e \<Rightarrow> Inl e
      | Inr nodeId \<Rightarrow>
     (case optionalNumber (cx_depth input) ''depth'' (Some 0) (Some 10) of
        Inl e \<Rightarrow> Inl e
      | Inr given \<Rightarrow>
     (let depth = (case given of None \<Rightarrow> 2 | Some d \<Rightarrow> d) in
      case getNodeOrThrow st nodeId of
        Inl e \<Rightarrow> Inl e
      | Inr n \<Rightarrow>
     (let ancestors = getAncestors st nodeId in
      case buildNodeTree st nodeId 0 depth of
        Inl e \<Rightarrow> Inl e
      | Inr children \<Rightarrow>
     (let depsOut = getEdgesFrom st nodeId ''depends_on'';
          depsIn = getEdgesTo st nodeId ''depends_on'';
          depends_on =
            map (\<lambda>e. let target = getNode st (e_to_node e)
                      in \<lparr>d_node = target,
                          d_satisfied = (case target of None \<Rightarrow> False | Some t \<Rightarrow> n_resolved t)\<rparr>)
              depsOut;
          depended_by =
            map (\<lambda>e. let source = getNode st (e_from_node e)
                      in \<lparr>d_node = source, d_satisfied = n_resolved n\<rparr>)
              depsIn
      in Inr \<lparr>cr_node = n, cr_ancestors = ancestors, cr_children = children,
               cr_depends_on = depends_on, cr_depended_by = depended_by\<rparr>)))))"

section \<open>The open operation (tools/open.ts)\<close>

record OpenInput =
  oi_project :: jsval
  oi_goal :: jsval

record project_summary =
  ps_total :: nat
  ps_resolved :: nat
  ps_unresolved :: nat
  ps_blocked :: nat
  ps_actionable :: nat

datatype OpenResult =
    ProjectList "project_info list"
  | ProjectOpened string node project_summary

text \<open>
  \<^verbatim>\<open>handleOpen(input, agent)\<close> returns its result and the store it leaves. The
  aggregate \<^verbatim>\<open>getProjectSummary\<close> of \<^verbatim>\<open>nodes.ts\<close> is a parameter, as are the
  fresh id and the time that \<^verbatim>\<open>createNode\<close> draws. \<^verbatim>\<open>!project\<close> holds of
  \<^verbatim>\<open>undefined\<close> and of the empty string.
\<close>

definition handleOpen ::
  "(store \<Rightarrow> string \<Rightarrow> project_summary) \<Rightarrow> string \<Rightarrow> string \<Rightarrow>
   store \<Rightarrow> OpenInput \<Rightarrow> string \<Rightarrow> (error + OpenResult) \<times> store" where
  "handleOpen getProjectSummary new_id now st input agent =
     (case optionalString (oi_project input) ''project'' of
        Inl e \<Rightarrow> (Inl e, st)
      | Inr project \<Rightarrow>
     (case optionalString (oi_goal input) ''goal'' of
        Inl e \<Rightarrow> (Inl e, st)
      | Inr goal \<Rightarrow>
     (case project of
        None \<Rightarrow> (Inr (ProjectList (listProjects st)), st)
      | Some p \<Rightarrow>
          if p = [] then (Inr (ProjectList (listProjects st)), st)
          else
            (let (rootNode, st') =
                   (case getProjectRoot st p of
                      Some r \<Rightarrow> (r, st)
                    | None \<Rightarrow>
                        createNode st new_id now
                          \<lparr>ci_project = p,
                           ci_summary = (case goal of None \<Rightarrow> p | Some g \<Rightarrow> g),
                           ci_discovery = ''pending'', ci_agent = agent\<rparr>);
                 summary = getProjectSummary st' p
             in (Inr (ProjectOpened p rootNode summary), st')))))"

section \<open>The tree operation\<close>

record TreeInput =
  ti_project :: jsval
  ti_depth :: jsval

text \<open>The mutable \<^verbatim>\<open>stats\<close> object that \<^verbatim>\<open>buildTree\<close> updates in place.\<close>

record stats =
  s_total :: nat
  s_resolved :: nat

record tree_stats =
  ts_total :: nat
  ts_resolved :: nat
  ts_unresolved :: int

record 'a TreeResult =
  tr_project :: string
  tr_tree :: 'a
  tr_stats :: tree_stats

subsection \<open>tools/tree.ts\<close>

datatype TreeNode_v1 =
  TreeNode_v1 (tv_id: string) (tv_summary: string) (tv_resolved: bool)
    (tv_properties: "(string \<times> jsval) list")
    (tv_children: "TreeNode_v1 list option") (tv_child_count: "nat option")

text \<open>
  \<^verbatim>\<open>buildTree(node, currentDepth, maxDepth, stats)\<close> of \<^verbatim>\<open>tools/tree.ts\<close>, the
  updated \<^verbatim>\<open>stats\<close> returned beside the tree; the second function is its
  \<^verbatim>\<open>children.map(...)\<close>, called at \<^verbatim>\<open>currentDepth + 1\<close>.
\<close>

function buildTree_v1 :: "store \<Rightarrow> node \<Rightarrow> nat \<Rightarrow> rat \<Rightarrow> stats \<Rightarrow> TreeNode_v1 \<times> stats"
  and buildTree_v1_map :: "store \<Rightarrow> node list \<Rightarrow> nat \<Rightarrow> rat \<Rightarrow> stats \<Rightarrow> TreeNode_v1 list \<times> stats"
where
  "buildTree_v1 st n currentDepth maxDepth stats =
     (let stats1 = stats\<lparr>s_total := s_total stats + 1\<rparr>;
          stats2 = (if n_resolved n then stats1\<lparr>s_resolved := s_resolved stats1 + 1\<rparr> else stats1);
          children = getChildren st (n_id n)
      in if length children = 0
         then (TreeNode_v1 (n_id n) (n_summary n) (n_resolved n) (n_properties n) None None, stats2)
         else if of_nat currentDepth < maxDepth
         then (case buildTree_v1_map st children (currentDepth + 1) maxDepth stats2 of
                 (ts, stats3) \<Rightarrow>
                   (TreeNode_v1 (n_id n) (n_summary n) (n_resolved n) (n_properties n) (Some ts) None,
                    stats3))
         else (TreeNode_v1 (n_id n) (n_summary n) (n_resolved n) (n_properties n) None
                 (Some (length children)), stats2))"
| "buildTree_v1_map st [] d maxDepth stats = ([], stats)"
| "buildTree_v1_map st (child # rest) d maxDepth stats =
     (case buildTree_v1 st child d maxDepth stats of
        (t, stats') \<Rightarrow>
          (case buildTree_v1_map st rest d maxDepth stats' of
             (ts, stats'') \<Rightarrow> (t # ts, stats'')))"
  by pat_completeness auto
termination
  apply (relation "inv_image (less_than <*lex*> less_than) (\<lambda>x. case x of
          Inl (st, n, d, m, s) \<Rightarrow> (nat \<lceil>m\<rceil> + 1 - d, 0)
        | Inr (st, cs, d, m, s) \<Rightarrow> (nat \<lceil>m\<rceil> + 1 - d, length cs + 1))")
  subgoal by (intro wf_inv_image wf_lex_prod wf_less_than)
  subgoal for st n currentDepth maxDepth
  proof -
    assume "of_nat currentDepth < maxDepth"
    then have "of_int (int currentDepth) < maxDepth" by simp
    then have "int currentDepth < \<lceil>maxDepth\<rceil>" by (simp only: less_ceiling_iff)
    then show ?thesis by auto
  qed
  subgoal by simp
  subgoal by simp
  done

definition handleTree_v1 :: "store \<Rightarrow> TreeInput \<Rightarrow> error + TreeNode_v1 TreeResult" where
  "handleTree_v1 st input =
     (case requireString (ti_project input) ''project'' of
        Inl e \<Rightarrow> Inl e
      | Inr project \<Rightarrow>
     (case optionalNumber (ti_depth input) ''depth'' (Some 1) (Some 20) of
        Inl e \<Rightarrow> Inl e
      | Inr given \<Rightarrow>
     (let depth = (case given of None \<Rightarrow> 10 | Some d \<Rightarrow> d) in
      case getProjectRoot st project of
        None \<Rightarrow> Inl (EngineError ''project_not_found'' (''Project not found: '' @ project))
      | Some rootNode \<Rightarrow>
          (case buildTree_v1 st rootNode 0 depth \<lparr>s_total = 0, s_resolved = 0\<rparr> of
             (tree, stats) \<Rightarrow>
               Inr \<lparr>tr_project = project, tr_tree = tree,
                    tr_stats = \<lparr>ts_total = s_total stats, ts_resolved = s_resolved stats,
                                ts_unresolved = int (s_total stats) - int (s_resolved stats)\<rparr>\<rparr>))))"

subsection \<open>The tree operation with progress (the later tools/tree.ts, in context.ts)\<close>

datatype TreeNode =
  TreeNode (tn_id: string) (tn_summary: string) (tn_resolved: bool)
    (tn_properties: "(string \<times> jsval) list") (tn_progress: "progress option")
    (tn_children: "TreeNode list option") (tn_child_count: "nat option")

text \<open>
  \<^verbatim>\<open>buildTree(node, currentDepth, maxDepth, stats)\<close> returns
  \<^verbatim>\<open>{treeNode, subtotal, subresolved}\<close>, here with the updated \<^verbatim>\<open>stats\<close>. The
  second function is the \<^verbatim>\<open>for (const child of children)\<close> loop, called at
  \<^verbatim>\<open>currentDepth + 1\<close>; it carries the array \<^verbatim>\<open>treeNode.children\<close> and the two
  running sums.
\<close>

function buildTree ::
    "store \<Rightarrow> node \<Rightarrow> nat \<Rightarrow> rat \<Rightarrow> stats \<Rightarrow> (TreeNode \<times> nat \<times> nat) \<times> stats"
  and buildTree_loop ::
    "store \<Rightarrow> node list \<Rightarrow> nat \<Rightarrow> rat \<Rightarrow> TreeNode list \<times> nat \<times> nat \<Rightarrow> stats \<Rightarrow>
     (TreeNode list \<times> nat \<times> nat) \<times> stats"
where
  "buildTree st n currentDepth maxDepth stats =
     (let stats1 = stats\<lparr>s_total := s_total stats + 1\<rparr>;
          stats2 = (if n_resolved n then stats1\<lparr>s_resolved := s_resolved stats1 + 1\<rparr> else stats1);
          children = getChildren st (n_id n);
          subtotal = 1;
          subresolved = (if n_resolved n then 1 else 0)
      in if length children = 0
         then ((TreeNode (n_id n) (n_summary n) (n_resolved n) (n_properties n) None None None,
                subtotal, subresolved), stats2)
         else if of_nat currentDepth < maxDepth
         then (case buildTree_loop st children (currentDepth + 1) maxDepth
                      ([], subtotal, subresolved) stats2 of
                 ((ts, subtotal', subresolved'), stats3) \<Rightarrow>
                   ((TreeNode (n_id n) (n_summary n) (n_resolved n) (n_properties n)
                       (Some \<lparr>pr_resolved = subresolved', pr_total = subtotal'\<rparr>) (Some ts) None,
                     subtotal', subresolved'), stats3))
         else (let progress = getSubtreeProgress st (n_id n)
               in ((TreeNode (n_id n) (n_summary n) (n_resolved n) (n_properties n)
                      (Some \<lparr>pr_resolved = pr_resolved progress, pr_total = pr_total progress\<rparr>)
                      None (Some (length children)),
                    pr_total progress, pr_resolved progress), stats2)))"
| "buildTree_loop st [] d maxDepth acc stats = (acc, stats)"
| "buildTree_loop st (child # rest) d maxDepth (ts, subtotal, subresolved) stats =
     (case buildTree st child d maxDepth stats of
        ((t, ctotal, cresolved), stats') \<Rightarrow>
          buildTree_loop st rest d maxDepth
            (ts @ [t], subtotal + ctotal, subresolved + cresolved) stats')"
  by pat_completeness auto
termination
  apply (relation "inv_image (less_than <*lex*> less_than) (\<lambda>x. case x of
          Inl (st, n, d, m, s) \<Rightarrow> (nat \<lceil>m\<rceil> + 1 - d, 0)
        | Inr (st, cs, d, m, acc, s) \<Rightarrow> (nat \<lceil>m\<rceil> + 1 - d, length cs + 1))")
  subgoal by (intro wf_inv_image wf_lex_prod wf_less_than)
  subgoal for st n currentDepth maxDepth
  proof -
    assume "of_nat currentDepth < maxDepth"
    then have "of_int (int currentDepth) < maxDepth" by simp
    then have "int currentDepth < \<lceil>maxDepth\<rceil>" by (simp only: less_ceiling_iff)
    then show ?thesis by auto
  qed
  subgoal by simp
  subgoal by simp
  done

fun tn_level :: "nat \<Rightarrow> TreeNode \<Rightarrow> TreeNode list" where
  "tn_level 0 t = [t]"
| "tn_level (Suc k) t =
     concat (map (tn_level k) (case tn_children t of None \<Rightarrow> [] | Some cs \<Rightarrow> cs))"

text \<open>
  What \<^verbatim>\<open>buildTree\<close> decides for a node at depth \<open>k\<close> under the limit \<open>d\<close>: a
  node without children carries no \<^verbatim>\<open>children\<close>, \<^verbatim>\<open>child_count\<close> or
  \<^verbatim>\<open>progress\<close>; a node above the limit carries all its children and some progress;
  a node at the limit is cut off: it carries the number of its children and the progress
  that the aggregate query gives for it.
\<close>

definition tree_node_shape :: "store \<Rightarrow> rat \<Rightarrow> nat \<Rightarrow> TreeNode \<Rightarrow> bool" where
  "tree_node_shape st d k s =
     (let cs = getChildren st (tn_id s) in
      if cs = []
      then tn_children s = None \<and> tn_child_count s = None \<and> tn_progress s = None
      else if of_nat k < d
      then tn_child_count s = None \<and> tn_progress s \<noteq> None \<and>
           map_option (map tn_id) (tn_children s) = Some (map n_id cs)
      else tn_children s = None \<and> tn_child_count s = Some (length cs) \<and>
           tn_progress s = Some (getSubtreeProgress st (tn_id s)))"

text \<open>
  The counts over the whole subtree of a stored node, and the progress a rendered node
  should report by them: none for a node without children, the aggregate otherwise.
\<close>

definition sub_total :: "store \<Rightarrow> node \<Rightarrow> nat" where
  "sub_total st n = length (subtree st (length (nodes st)) n)"

definition sub_resolved :: "store \<Rightarrow> node \<Rightarrow> nat" where
  "sub_resolved st n = length (filter n_resolved (subtree st (length (nodes st)) n))"

definition full_progress :: "store \<Rightarrow> TreeNode \<Rightarrow> bool" where
  "full_progress st s =
     (tn_progress s =
        (if getChildren st (tn_id s) = [] then None
         else Some (getSubtreeProgress st (tn_id s))))"

text \<open>A tree of the later version with its \<^verbatim>\<open>progress\<close> fields left out.\<close>

primrec erase_progress :: "TreeNode \<Rightarrow> TreeNode_v1" where
  "erase_progress (TreeNode i s r p pr cs cc) =
     TreeNode_v1 i s r p (map_option (map erase_progress) cs) cc"

text \<open>\<^verbatim>\<open>names.join(", ")\<close>.\<close>

fun join :: "string \<Rightarrow> string list \<Rightarrow> string" where
  "join sep [] = []"
| "join sep [x] = x"
| "join sep (x # y # ys) = x @ sep @ join sep (y # ys)"

definition handleTree :: "store \<Rightarrow> TreeInput \<Rightarrow> error + TreeNode TreeResult" where
  "handleTree st input =
     (case requireString (ti_project input) ''project'' of
        Inl e \<Rightarrow> Inl e
      | Inr project \<Rightarrow>
     (case optionalNumber (ti_depth input) ''depth'' (Some 1) (Some 20) of
        Inl e \<Rightarrow> Inl e
      | Inr given \<Rightarrow>
     (let depth = (case given of None \<Rightarrow> 10 | Some d \<Rightarrow> d) in
      case getProjectRoot st project of
        None \<Rightarrow>
          (let available = listProjects st;
               names = map pi_project available;
               suffix = (if length names > 0
                         then '' Available projects: '' @ join '', '' names
                         else '' No projects exist yet.'')
           in Inl (EngineError ''project_not_found''
                     (''Project not found: '' @ project @ ''.'' @ suffix)))
      | Some rootNode \<Rightarrow>
          (case buildTree st rootNode 0 depth \<lparr>s_total = 0, s_resolved = 0\<rparr> of
             ((treeNode, subtotal, subresolved), stats) \<Rightarrow>
               Inr \<lparr>tr_project = project, tr_tree = treeNode,
                    tr_stats = \<lparr>ts_total = s_total stats, ts_resolved = s_resolved stats,
                                ts_unresolved = int (s_total stats) - int (s_resolved stats)\<rparr>\<rparr>))))"

section \<open>Backup and restore (db.ts)\<close>

text \<open>
  Modelled from the spec: the state of the backup manager of \<^verbatim>\<open>db.ts\<close>, which is
  not among the sources (only its test and its command-line caller are). Section 4.9 and
  section 6: the backups directory holds files named by timestamp and tag, each a copy of
  the store's image; it is kept here in creation order, oldest first, beside the path and
  the live image of the store.
\<close>

record backup =
  b_filename :: string
  b_tag :: string
  b_image :: store

record db =
  db_path :: string
  db_live :: store
  db_backups :: "backup list"

text \<open>
  Modelled from the spec: a store is file-backed or purely in-memory (section 4.9); the
  in-memory store is the one opened at the path \<^verbatim>\<open>:memory:\<close>, as in the test.
\<close>

definition in_memory :: "db \<Rightarrow> bool" where
  "in_memory d = (db_path d = '':memory:'')"

text \<open>
  Modelled from the spec: retention pruning. Section 4.9: after any backup, retention
  pruning keeps only the most recent 10 backups (by creation order) regardless of tag,
  deleting older ones.
\<close>

definition pruneBackups :: "backup list \<Rightarrow> backup list" where
  "pruneBackups bs = drop (length bs - 10) bs"

text \<open>
  Modelled from the spec: \<^verbatim>\<open>backupDb(tag)\<close>. Section 4.9: a purely in-memory store
  returns no backup destination; a manual backup takes an arbitrary caller-supplied tag;
  pruning follows every backup. The timestamp that names the file is read from the clock,
  here the argument \<open>stamp\<close>.
\<close>

definition backupDb :: "db \<Rightarrow> string \<Rightarrow> string \<Rightarrow> string option \<times> db" where
  "backupDb d stamp tag =
     (if in_memory d then (None, d)
      else
        (let b = \<lparr>b_filename = stamp @ ''-'' @ tag, b_tag = tag, b_image = db_live d\<rparr>
         in (Some (b_filename b), d\<lparr>db_backups := pruneBackups (db_backups d @ [b])\<rparr>)))"

text \<open>
  Modelled from the spec: backups made in sequence (section 8: creating 12 tagged
  backups), each with the clock's stamp and its tag.
\<close>

fun backupAll :: "db \<Rightarrow> (string \<times> string) list \<Rightarrow> db" where
  "backupAll d [] = d"
| "backupAll d ((stamp, tag) # rest) = backupAll (snd (backupDb d stamp tag)) rest"

text \<open>Modelled from the spec: \<^verbatim>\<open>listBackups()\<close>. Section 6: list (newest-first).\<close>

definition listBackups :: "db \<Rightarrow> backup list" where
  "listBackups d = (if in_memory d then [] else rev (db_backups d))"

text \<open>
  Modelled from the spec: a restore target that is a 1-based recency index (section 4.9)
  is a decimal numeral.
\<close>

definition is_digit :: "char \<Rightarrow> bool" where
  "is_digit c = (c \<in> set ''0123456789'')"

text \<open>Modelled from the spec: the index that a numeral target denotes, if it is one.\<close>

definition parse_index :: "string \<Rightarrow> nat option" where
  "parse_index s =
     (if s \<noteq> [] \<and> list_all is_digit s
      then Some (foldl (\<lambda>a c. 10 * a + (of_char c - 48)) 0 s)
      else None)"

text \<open>
  Modelled from the spec: how \<^verbatim>\<open>restoreDb\<close> resolves its target. Section 4.9:
  restore accepts either an exact backup filename or a 1-based recency index (1 = most
  recent).
\<close>

definition resolveBackup :: "db \<Rightarrow> string \<Rightarrow> backup option" where
  "resolveBackup d target =
     (let bs = listBackups d in
      case parse_index target of
        Some i \<Rightarrow>
          if 1 \<le> i \<and> i \<le> length bs then Some (bs ! (i - 1))
          else find (\<lambda>b. b_filename b = target) bs
      | None \<Rightarrow> find (\<lambda>b. b_filename b = target) bs)"

text \<open>
  Modelled from the spec: \<^verbatim>\<open>restoreDb(target)\<close>. Section 4.9: it fails with
  BackupNotFound if the target does not resolve, and otherwise replaces the live store
  image; against a purely in-memory store it is a no-op reporting not-found. The message
  is the one the test expects, the result the restored file's name.
\<close>

definition restoreDb :: "db \<Rightarrow> string \<Rightarrow> (error + string) \<times> db" where
  "restoreDb d target =
     (case resolveBackup d target of
        None \<Rightarrow> (Inl (EngineError ''backup_not_found'' (''Backup not found: '' @ target)), d)
      | Some b \<Rightarrow> (Inr (b_filename b), d\<lparr>db_live := b_image b\<rparr>))"

section \<open>Example data\<close>

text \<open>
  A small project: the root \<open>r\<close> has the children \<open>a\<close> and \<open>d\<close>, below \<open>a\<close> hangs
  the chain \<open>b\<close>, \<open>c\<close>; \<open>a\<close> depends on \<open>d\<close> and \<open>c\<close> depends on \<open>a\<close>.
\<close>

definition mk_node :: "string \<Rightarrow> string option \<Rightarrow> bool \<Rightarrow> node" where
  "mk_node i p r =
     \<lparr>n_id = i, n_project = ''demo'', n_parent = p, n_summary = i, n_resolved = r,
      n_state = JNull, n_properties = [], n_discovery = None, n_blocked = False,
      n_created_by = ''agent'', n_created_at = ''t0'', n_updated_at = ''t0''\<rparr>"

definition demo_store :: store where
  "demo_store =
     \<lparr>nodes = [mk_node ''r'' None False, mk_node ''a'' (Some ''r'') False,
               mk_node ''b'' (Some ''a'') True, mk_node ''c'' (Some ''b'') True,
               mk_node ''d'' (Some ''r'') True],
      edges = [\<lparr>e_from_node = ''a'', e_to_node = ''d'', e_type = ''depends_on'',
                 e_created_at = ''t0''\<rparr>,
               \<lparr>e_from_node = ''c'', e_to_node = ''a'', e_type = ''depends_on'',
                 e_created_at = ''t0''\<rparr>]\<rparr>"

text \<open>A stand-in for \<^verbatim>\<open>getProjectSummary\<close> in the examples: it counts the project's nodes.\<close>

definition demo_summary :: "store \<Rightarrow> string \<Rightarrow> project_summary" where
  "demo_summary st p =
     (let members = filter (\<lambda>n. n_project n = p) (nodes st);
          done = filter n_resolved members
      in \<lparr>ps_total = length members, ps_resolved = length done,
          ps_unresolved = length members - length done,
          ps_blocked = length (filter n_blocked members), ps_actionable = 0\<rparr>)"

text \<open>
  A file-backed store whose live image has lost its nodes, with two backups: an empty
  daily one and a later snapshot of the small project; and twelve backup requests.
\<close>

definition demo_db :: db where
  "demo_db =
     \<lparr>db_path = ''graph.db'', db_live = \<lparr>nodes = [], edges = []\<rparr>,
      db_backups =
        [\<lparr>b_filename = ''01-daily'', b_tag = ''daily'', b_image = \<lparr>nodes = [], edges = []\<rparr>\<rparr>,
         \<lparr>b_filename = ''02-snap'', b_tag = ''snap'', b_image = demo_store\<rparr>]\<rparr>"

definition demo_requests :: "(string \<times> string) list" where
  "demo_requests =
     [(''10'', ''test-00''), (''11'', ''test-01''), (''12'', ''test-02''), (''13'', ''test-03''),
      (''14'', ''test-04''), (''15'', ''test-05''), (''16'', ''test-06''), (''17'', ''test-07''),
      (''18'', ''test-08''), (''19'', ''test-09''), (''20'', ''test-10''), (''21'', ''test-11'')]"

section \<open>Validation errors\<close>

lemmas trim_eval = trim_def strip_leading.simps leading_of_def white_space_def

text \<open>
  White space outside ASCII is stripped like a blank: a no-break space and a byte-order
  mark around a name go, and a project name made of a line separator and a no-break
  space is rejected as empty.
\<close>

lemma trim_unicode_white_space:
  "trim [CHR 0xC2, CHR 0xA0, CHR 0x20, CHR ''a'', CHR 0x20, CHR ''b'',
         CHR 0xEF, CHR 0xBB, CHR 0xBF, CHR 0x0A] = ''a b''"
  "requireString (JStr [CHR 0xE2, CHR 0x80, CHR 0xA8, CHR 0xC2, CHR 0xA0]) ''project'' =
     Inl (ValidationError ''project is required and must be a non-empty string'')"
  by (simp_all add: requireString_def trim_eval)

lemma names_field_prefix: "names_field (ValidationError (field @ m)) field"
  by (simp add: names_field_def)

lemma requireString_names: "requireString v F = Inl e \<Longrightarrow> names_field e F"
  by (auto simp: requireString_def names_field_prefix split: jsval.splits if_splits)

lemma optionalString_names: "optionalString v F = Inl e \<Longrightarrow> names_field e F"
  by (auto simp: optionalString_def names_field_prefix split: jsval.splits)

lemma requireArray_names: "requireArray v F = Inl e \<Longrightarrow> names_field e F"
  by (auto simp: requireArray_def names_field_prefix split: jsval.splits if_splits)

lemma optionalArray_names: "optionalArray v F = Inl e \<Longrightarrow> names_field e F"
  by (auto simp: optionalArray_def names_field_prefix split: jsval.splits)

lemma optionalNumber_names: "optionalNumber v F mn mx = Inl e \<Longrightarrow> names_field e F"
  by (auto simp: optionalNumber_def names_field_prefix split: jsval.splits option.splits if_splits)

lemma optionalBoolean_names: "optionalBoolean v F = Inl e \<Longrightarrow> names_field e F"
  by (auto simp: optionalBoolean_def names_field_prefix split: jsval.splits)

lemma requireObject_names: "requireObject v F = Inl e \<Longrightarrow> names_field e F"
  by (auto simp: requireObject_def names_field_prefix split: jsval.splits)

text \<open>
  C6. Every rejection by a validation helper is a \<open>ValidationError\<close> whose message
  contains the name of the field it was called for: this holds of \<open>requireString\<close>,
  \<open>optionalString\<close>, \<open>requireArray\<close>, \<open>optionalArray\<close>, \<open>optionalNumber\<close>,
  \<open>optionalBoolean\<close> and \<open>requireObject\<close>. The context, tree and open operations
  validate their fields first: when a field is rejected the operation returns that very
  error whatever the store holds, and the open operation leaves the store as it was.
\<close>

theorem validation_error_names_field:
  "(requireString v F = Inl e1 \<longrightarrow> names_field e1 F) \<and>
   (optionalString v F = Inl e2 \<longrightarrow> names_field e2 F) \<and>
   (requireArray v F = Inl e3 \<longrightarrow> names_field e3 F) \<and>
   (optionalArray v F = Inl e4 \<longrightarrow> names_field e4 F) \<and>
   (optionalNumber v F mn mx = Inl e5 \<longrightarrow> names_field e5 F) \<and>
   (optionalBoolean v F = Inl e6 \<longrightarrow> names_field e6 F) \<and>
   (requireObject v F = Inl e7 \<longrightarrow> names_field e7 F) \<and>
   (requireString (cx_node_id cin) ''node_id'' = Inl e8 \<longrightarrow>
      handleContext st cin = Inl e8 \<and> names_field e8 ''node_id'') \<and>
   (requireString (cx_node_id cin) ''node_id'' = Inr i \<and>
    optionalNumber (cx_depth cin) ''depth'' (Some 0) (Some 10) = Inl e9 \<longrightarrow>
      handleContext st cin = Inl e9 \<and> names_field e9 ''depth'') \<and>
   (requireString (ti_project tin) ''project'' = Inl e10 \<longrightarrow>
      handleTree st tin = Inl e10 \<and> handleTree_v1 st tin = Inl e10 \<and>
      names_field e10 ''project'') \<and>
   (requireString (ti_project tin) ''project'' = Inr p \<and>
    optionalNumber (ti_depth tin) ''depth'' (Some 1) (Some 20) = Inl e11 \<longrightarrow>
      handleTree st tin = Inl e11 \<and> handleTree_v1 st tin = Inl e11 \<and>
      names_field e11 ''depth'') \<and>
   (optionalString (oi_project oin) ''project'' = Inl e12 \<longrightarrow>
      handleOpen gps new_id now st oin agent = (Inl e12, st) \<and> names_field e12 ''project'') \<and>
   (optionalString (oi_project oin) ''project'' = Inr po \<and>
    optionalString (oi_goal oin) ''goal'' = Inl e13 \<longrightarrow>
      handleOpen gps new_id now st oin agent = (Inl e13, st) \<and> names_field e13 ''goal'')"
proof -
  have c: "requireString (cx_node_id cin) ''node_id'' = Inl e8 \<longrightarrow>
      handleContext st cin = Inl e8 \<and> names_field e8 ''node_id''"
    by (auto simp: handleContext_def intro: requireString_names)
  have cd: "requireString (cx_node_id cin) ''node_id'' = Inr i \<and>
    optionalNumber (cx_depth cin) ''depth'' (Some 0) (Some 10) = Inl e9 \<longrightarrow>
      handleContext st cin = Inl e9 \<and> names_field e9 ''depth''"
    by (auto simp: handleContext_def intro: optionalNumber_names)
  have t: "requireString (ti_project tin) ''project'' = Inl e10 \<longrightarrow>
      handleTree st tin = Inl e10 \<and> handleTree_v1 st tin = Inl e10 \<and>
      names_field e10 ''project''"
    by (auto simp: handleTree_def handleTree_v1_def intro: requireString_names)
  have td: "requireString (ti_project tin) ''project'' = Inr p \<and>
    optionalNumber (ti_depth tin) ''depth'' (Some 1) (Some 20) = Inl e11 \<longrightarrow>
      handleTree st tin = Inl e11 \<and> handleTree_v1 st tin = Inl e11 \<and>
      names_field e11 ''depth''"
    by (auto simp: handleTree_def handleTree_v1_def intro: optionalNumber_names)
  have o: "optionalString (oi_project oin) ''project'' = Inl e12 \<longrightarrow>
      handleOpen gps new_id now st oin agent = (Inl e12, st) \<and> names_field e12 ''project''"
    by (auto simp: handleOpen_def intro: optionalString_names)
  have og: "optionalString (oi_project oin) ''project'' = Inr po \<and>
    optionalString (oi_goal oin) ''goal'' = Inl e13 \<longrightarrow>
      handleOpen gps new_id now st oin agent = (Inl e13, st) \<and> names_field e13 ''goal''"
    by (auto simp: handleOpen_def intro: optionalString_names)
  show ?thesis
    using c cd t td o og requireString_names [of v F e1] optionalString_names [of v F e2]
      requireArray_names [of v F e3] optionalArray_names [of v F e4]
      optionalNumber_names [of v F mn mx e5] optionalBoolean_names [of v F e6]
      requireObject_names [of v F e7]
    by blast
qed



theorem validation_error_names_field_witness:
  "requireString (JNum 5) ''depth'' =
     Inl (ValidationError ''depth is required and must be a non-empty string'') \<and>
   names_field (ValidationError ''depth is required and must be a non-empty string'') ''depth'' \<and>
   optionalString (JNum 5) ''depth'' = Inl (ValidationError ''depth must be a string'') \<and>
   names_field (ValidationError ''depth must be a string'') ''depth'' \<and>
   requireArray (JNum 5) ''depth'' =
     Inl (ValidationError ''depth is required and must be a non-empty array'') \<and>
   names_field (ValidationError ''depth is required and must be a non-empty array'') ''depth'' \<and>
   optionalArray (JNum 5) ''depth'' = Inl (ValidationError ''depth must be an array'') \<and>
   names_field (ValidationError ''depth must be an array'') ''depth'' \<and>
   optionalNumber (JNum 5) ''depth'' (Some 10) None =
     Inl (ValidationError ''depth must be >= 10'') \<and>
   names_field (ValidationError ''depth must be >= 10'') ''depth'' \<and>
   optionalBoolean (JNum 5) ''depth'' = Inl (ValidationError ''depth must be a boolean'') \<and>
   names_field (ValidationError ''depth must be a boolean'') ''depth'' \<and>
   requireObject (JNum 5) ''depth'' =
     Inl (ValidationError ''depth is required and must be an object'') \<and>
   names_field (ValidationError ''depth is required and must be an object'') ''depth'' \<and>
   handleContext \<lparr>nodes = [], edges = []\<rparr> \<lparr>cx_node_id = JStr '' '', cx_depth = JNum 1\<rparr> =
     Inl (ValidationError ''node_id is required and must be a non-empty string'') \<and>
   handleContext \<lparr>nodes = [], edges = []\<rparr> \<lparr>cx_node_id = JStr ''a'', cx_depth = JNum 11\<rparr> =
     Inl (ValidationError ''depth must be <= 10'') \<and>
   handleTree \<lparr>nodes = [], edges = []\<rparr> \<lparr>ti_project = JNull, ti_depth = JNum 1\<rparr> =
     Inl (ValidationError ''project is required and must be a non-empty string'') \<and>
   handleTree \<lparr>nodes = [], edges = []\<rparr> \<lparr>ti_project = JStr ''p'', ti_depth = JNum 0\<rparr> =
     Inl (ValidationError ''depth must be >= 1'') \<and>
   handleTree_v1 \<lparr>nodes = [], edges = []\<rparr> \<lparr>ti_project = JStr ''p'', ti_depth = JNaN\<rparr> =
     Inl (ValidationError ''depth must be a number'') \<and>
   handleOpen (\<lambda>s p. \<lparr>ps_total = 0, ps_resolved = 0, ps_unresolved = 0, ps_blocked = 0, ps_actionable = 0\<rparr>) ''n1'' ''t'' \<lparr>nodes = [], edges = []\<rparr>
       \<lparr>oi_project = JBool True, oi_goal = JNull\<rparr> ''agent'' =
     (Inl (ValidationError ''project must be a string''), \<lparr>nodes = [], edges = []\<rparr>) \<and>
   handleOpen (\<lambda>s p. \<lparr>ps_total = 0, ps_resolved = 0, ps_unresolved = 0, ps_blocked = 0, ps_actionable = 0\<rparr>) ''n1'' ''t'' \<lparr>nodes = [], edges = []\<rparr>
       \<lparr>oi_project = JStr ''p'', oi_goal = JNum 3\<rparr> ''agent'' =
     (Inl (ValidationError ''goal must be a string''), \<lparr>nodes = [], edges = []\<rparr>)"
  using validation_error_names_field [of "JNum 5" "''depth''"
      "ValidationError ''depth is required and must be a non-empty string''"
      "ValidationError ''depth must be a string''"
      "ValidationError ''depth is required and must be a non-empty array''"
      "ValidationError ''depth must be an array''"
      "Some 10" None
      "ValidationError ''depth must be >= 10''"
      "ValidationError ''depth must be a boolean''"
      "ValidationError ''depth is required and must be an object''"
      "\<lparr>cx_node_id = JStr '' '', cx_depth = JNum 1\<rparr>"
      "ValidationError ''node_id is required and must be a non-empty string''"
      "\<lparr>nodes = [], edges = []\<rparr>" "''x''" "ValidationError ''y''"
      "\<lparr>ti_project = JNull, ti_depth = JNum 1\<rparr>"
      "ValidationError ''project is required and must be a non-empty string''"
      "''x''" "ValidationError ''y''"
      "\<lparr>oi_project = JBool True, oi_goal = JNull\<rparr>"
      "ValidationError ''project must be a string''" "(\<lambda>s p. \<lparr>ps_total = 0, ps_resolved = 0, ps_unresolved = 0, ps_blocked = 0, ps_actionable = 0\<rparr>)" "''n1''" "''t''" "''agent''"]
    validation_error_names_field [of "JNum 5" "''depth''"
      "ValidationError ''depth is required and must be a non-empty string''"
      "ValidationError ''depth must be a string''"
      "ValidationError ''depth is required and must be a non-empty array''"
      "ValidationError ''depth must be an array''"
      "Some 10" None
      "ValidationError ''depth must be >= 10''"
      "ValidationError ''depth must be a boolean''"
      "ValidationError ''depth is required and must be an object''"
      "\<lparr>cx_node_id = JStr ''a'', cx_depth = JNum 11\<rparr>"
      "ValidationError ''y''"
      "\<lparr>nodes = [], edges = []\<rparr>" "''a''" "ValidationError ''depth must be <= 10''"
      "\<lparr>ti_project = JStr ''p'', ti_depth = JNum 0\<rparr>"
      "ValidationError ''y''"
      "''p''" "ValidationError ''depth must be >= 1''"
      "\<lparr>oi_project = JStr ''p'', oi_goal = JNum 3\<rparr>"
      "ValidationError ''y''" "(\<lambda>s p. \<lparr>ps_total = 0, ps_resolved = 0, ps_unresolved = 0, ps_blocked = 0, ps_actionable = 0\<rparr>)" "''n1''" "''t''" "''agent''"
      "Some ''p''" "ValidationError ''goal must be a string''"]
    validation_error_names_field [of "JNum 5" "''depth''"
      "ValidationError ''depth is required and must be a non-empty string''"
      "ValidationError ''depth must be a string''"
      "ValidationError ''depth is required and must be a non-empty array''"
      "ValidationError ''depth must be an array''"
      "Some 10" None
      "ValidationError ''depth must be >= 10''"
      "ValidationError ''depth must be a boolean''"
      "ValidationError ''depth is required and must be an object''"
      "\<lparr>cx_node_id = JStr ''a'', cx_depth = JNum 11\<rparr>"
      "ValidationError ''y''"
      "\<lparr>nodes = [], edges = []\<rparr>" "''a''" "ValidationError ''depth must be <= 10''"
      "\<lparr>ti_project = JStr ''p'', ti_depth = JNaN\<rparr>"
      "ValidationError ''y''"
      "''p''" "ValidationError ''depth must be a number''"]
  by (simp add: requireString_def optionalString_def requireArray_def optionalArray_def
      optionalNumber_def optionalBoolean_def requireObject_def trim_eval
      show_int_def show_nat.simps digit_char_def)

section \<open>The context operation: children tree\<close>

lemma getNode_SomeD: "getNode st i = Some n \<Longrightarrow> n_id n = i \<and> n \<in> set (nodes st)"
  by (auto simp: getNode_def find_Some_iff)

lemma getNodeOrThrow_InrD: "getNodeOrThrow st i = Inr n \<Longrightarrow> getNode st i = Some n"
  by (auto simp: getNodeOrThrow_def split: option.splits)

lemma buildNodeTree_shape:
  "buildNodeTree st i cd md = Inr t \<Longrightarrow>
     nt_id t = i \<and>
     (\<forall>k. \<forall>s\<in>set (nt_level k t). node_shape st md (cd + k) s \<and> (k = 0 \<or> of_nat (cd + k) < md + 1))"
  "buildNodeTree_map st cs d md = Inr ts \<Longrightarrow>
     map nt_id ts = map n_id cs \<and>
     (\<forall>t\<in>set ts. \<forall>k. \<forall>s\<in>set (nt_level k t).
        node_shape st md (d + k) s \<and> (k = 0 \<or> of_nat (d + k) < md + 1))"
proof (induct st i cd md and st cs d md arbitrary: t and ts rule: buildNodeTree_buildNodeTree_map.induct)
  case (1 st nodeId currentDepth maxDepth)
  from "1.prems" obtain n where g: "getNodeOrThrow st nodeId = Inr n"
    by (cases "getNodeOrThrow st nodeId") auto
  then have idn: "n_id n = nodeId" by (auto dest: getNodeOrThrow_InrD getNode_SomeD)
  let ?cs = "getChildren st nodeId"
  show ?case
  proof (cases "?cs = []")
    case True
    with g "1.prems" have t: "t = NodeTree (n_id n) (n_summary n) (n_resolved n) (n_state n) None None"
      by (simp add: Let_def)
    have lv: "k = 0 \<and> s = t" if "s \<in> set (nt_level k t)" for k s
      using that by (cases k) (auto simp: t)
    have sh: "node_shape st maxDepth currentDepth t"
      using True idn by (simp add: node_shape_def t)
    have "nt_id t = nodeId" using idn by (simp add: t)
    with lv sh show ?thesis by fastforce
  next
    case ne: False
    show ?thesis
    proof (cases "of_nat currentDepth < maxDepth")
      case False
      with g ne "1.prems" have t: "t = NodeTree (n_id n) (n_summary n) (n_resolved n) (n_state n) None (Some (length ?cs))"
        by (simp add: Let_def)
      have lv: "k = 0 \<and> s = t" if "s \<in> set (nt_level k t)" for k s
        using that by (cases k) (auto simp: t)
      have sh: "node_shape st maxDepth currentDepth t"
        using False ne idn by (simp add: node_shape_def t)
      have "nt_id t = nodeId" using idn by (simp add: t)
      with lv sh show ?thesis by fastforce
    next
      case lt: True
      with g ne "1.prems" obtain ts where
        m: "buildNodeTree_map st ?cs (currentDepth + 1) maxDepth = Inr ts" and
        t: "t = NodeTree (n_id n) (n_summary n) (n_resolved n) (n_state n) (Some ts) None"
        by (auto simp: Let_def split: sum.splits)
      from ne have ne': "length ?cs \<noteq> 0" by simp
      note ih = "1.hyps" [OF g refl ne' lt m]
      have root: "node_shape st maxDepth currentDepth t"
        using ih ne lt idn by (simp add: node_shape_def t)
      have "node_shape st maxDepth (currentDepth + k) s \<and> (k = 0 \<or> of_nat (currentDepth + k) < maxDepth + 1)"
        if s: "s \<in> set (nt_level k t)" for k s
      proof (cases k)
        case 0
        with s root show ?thesis by simp
      next
        case (Suc j)
        with s obtain t' where t': "t' \<in> set ts" and s': "s \<in> set (nt_level j t')"
          by (auto simp: t)
        from ih t' s' have a: "node_shape st maxDepth (currentDepth + 1 + j) s"
          and b: "j = 0 \<or> of_nat (currentDepth + 1 + j) < maxDepth + 1" by auto
        from b lt have "of_nat (currentDepth + 1 + j) < maxDepth + 1"
          by (cases "j = 0") auto
        with a Suc show ?thesis by simp
      qed
      then show ?thesis using idn by (auto simp: t)
    qed
  qed
next
  case (2 st d maxDepth)
  then show ?case by simp
next
  case (3 st child rest d maxDepth)
  from "3.prems" obtain t' ts' where
    a: "buildNodeTree st (n_id child) d maxDepth = Inr t'" and
    b: "buildNodeTree_map st rest d maxDepth = Inr ts'" and ts: "ts = t' # ts'"
    by (auto split: sum.splits)
  from "3.hyps"(1) [OF a] "3.hyps"(2) [OF a b] show ?case
    by (auto simp: ts)
qed


lemma getNode_member: "c \<in> set (nodes st) \<Longrightarrow> \<exists>m. getNode st (n_id c) = Some m"
  by (cases "getNode st (n_id c)") (auto simp: getNode_def find_None_iff)

lemma getChildren_member: "c \<in> set (getChildren st i) \<Longrightarrow> c \<in> set (nodes st)"
  by (simp add: getChildren_def)

lemma buildNodeTree_total:
  "getNode st i \<noteq> None \<Longrightarrow> \<exists>t. buildNodeTree st i cd md = Inr t"
  "set cs \<subseteq> set (nodes st) \<Longrightarrow> \<exists>ts. buildNodeTree_map st cs d md = Inr ts"
proof (induct st i cd md and st cs d md rule: buildNodeTree_buildNodeTree_map.induct)
  case (1 st nodeId currentDepth maxDepth)
  from "1.prems" obtain n where n: "getNode st nodeId = Some n" by auto
  then have g: "getNodeOrThrow st nodeId = Inr n" by (simp add: getNodeOrThrow_def)
  show ?case
  proof (cases "length (getChildren st nodeId) \<noteq> 0 \<and> of_nat currentDepth < maxDepth")
    case True
    have "set (getChildren st nodeId) \<subseteq> set (nodes st)"
      by (auto dest: getChildren_member)
    with "1.hyps" [OF g refl] True obtain ts where
      "buildNodeTree_map st (getChildren st nodeId) (currentDepth + 1) maxDepth = Inr ts"
      by auto
    with g True show ?thesis by (simp add: Let_def)
  next
    case False
    with g show ?thesis by (auto simp: Let_def)
  qed
next
  case (2 st d maxDepth)
  show ?case by simp
next
  case (3 st child rest d maxDepth)
  from "3.prems" have c: "child \<in> set (nodes st)" and r: "set rest \<subseteq> set (nodes st)" by auto
  from getNode_member [OF c] have "getNode st (n_id child) \<noteq> None" by auto
  from "3.hyps"(1) [OF this] obtain t where t: "buildNodeTree st (n_id child) d maxDepth = Inr t" by auto
  from "3.hyps"(2) [OF t r] obtain ts where "buildNodeTree_map st rest d maxDepth = Inr ts" by auto
  with t show ?case by simp
qed

lemma optionalNumber_bounds:
  "optionalNumber v f (Some lo) (Some hi) = Inr (Some x) \<Longrightarrow> of_int lo \<le> x \<and> x \<le> of_int hi"
  by (auto simp: optionalNumber_def split: jsval.splits if_splits)

lemma handleContext_success:
  assumes "requireString (cx_node_id cin) ''node_id'' = Inr i"
    and "optionalNumber (cx_depth cin) ''depth'' (Some 0) (Some 10) = Inr given"
    and "getNode st i = Some n"
  shows "\<exists>t. buildNodeTree st i 0 (case given of None \<Rightarrow> 2 | Some x \<Rightarrow> x) = Inr t \<and>
     handleContext st cin =
       Inr \<lparr>cr_node = n, cr_ancestors = getAncestors st i, cr_children = t,
            cr_depends_on =
              map (\<lambda>e. \<lparr>d_node = getNode st (e_to_node e),
                         d_satisfied = (case getNode st (e_to_node e) of
                                          None \<Rightarrow> False | Some t \<Rightarrow> n_resolved t)\<rparr>)
                (getEdgesFrom st i ''depends_on''),
            cr_depended_by =
              map (\<lambda>e. \<lparr>d_node = getNode st (e_from_node e), d_satisfied = n_resolved n\<rparr>)
                (getEdgesTo st i ''depends_on'')\<rparr>"
proof -
  from assms(3) obtain t where
    "buildNodeTree st i 0 (case given of None \<Rightarrow> 2 | Some x \<Rightarrow> x) = Inr t"
    using buildNodeTree_total(1) [of st i] by blast
  with assms show ?thesis
    by (simp add: handleContext_def getNodeOrThrow_def Let_def)
qed

text \<open>
  C2, as amended. For an existing node \<open>N\<close> and an accepted depth \<open>d\<close> (a number from
  0 to 10, whole or not, or 2 when none is given) the context operation succeeds and its
  children tree is rooted at \<open>N\<close>. Every node of the tree lies at a depth \<open>k\<close> with
  \<open>k < d + 1\<close>: the tree reaches down to the first whole depth not below \<open>d\<close>, which
  is \<open>d\<close> itself when \<open>d\<close> is a whole number. A node with no children in the store
  carries neither \<^verbatim>\<open>children\<close> nor \<^verbatim>\<open>child_count\<close>; a node with children at a
  depth \<open>k < d\<close> carries all its immediate children, in order, and no
  \<^verbatim>\<open>child_count\<close>; a node with children at a depth \<open>k \<ge> d\<close> carries no
  \<^verbatim>\<open>children\<close> array and a \<^verbatim>\<open>child_count\<close> equal to the number of its
  immediate children.
\<close>

theorem context_children_truncated_at_depth:
  assumes "requireString (cx_node_id cin) ''node_id'' = Inr i"
    and "optionalNumber (cx_depth cin) ''depth'' (Some 0) (Some 10) = Inr given"
    and "d = (case given of None \<Rightarrow> 2 | Some x \<Rightarrow> x)"
    and "getNode st i = Some n"
  shows "\<exists>r. handleContext st cin = Inr r \<and> nt_id (cr_children r) = i \<and>
     (\<forall>k. \<forall>s\<in>set (nt_level k (cr_children r)).
        of_nat k < d + 1 \<and>
        (getChildren st (nt_id s) = [] \<longrightarrow> nt_children s = None \<and> nt_child_count s = None) \<and>
        (getChildren st (nt_id s) \<noteq> [] \<and> of_nat k < d \<longrightarrow>
           nt_child_count s = None \<and>
           map_option (map nt_id) (nt_children s) = Some (map n_id (getChildren st (nt_id s)))) \<and>
        (getChildren st (nt_id s) \<noteq> [] \<and> d \<le> of_nat k \<longrightarrow>
           nt_children s = None \<and>
           nt_child_count s = Some (length (getChildren st (nt_id s)))))"
proof -
  from handleContext_success [OF assms(1,2,4)] assms(3) obtain t where
    t: "buildNodeTree st i 0 d = Inr t" and
    r: "handleContext st cin =
       Inr \<lparr>cr_node = n, cr_ancestors = getAncestors st i, cr_children = t,
            cr_depends_on =
              map (\<lambda>e. \<lparr>d_node = getNode st (e_to_node e),
                         d_satisfied = (case getNode st (e_to_node e) of
                                          None \<Rightarrow> False | Some t \<Rightarrow> n_resolved t)\<rparr>)
                (getEdgesFrom st i ''depends_on''),
            cr_depended_by =
              map (\<lambda>e. \<lparr>d_node = getNode st (e_from_node e), d_satisfied = n_resolved n\<rparr>)
                (getEdgesTo st i ''depends_on'')\<rparr>"
    by auto
  have d0: "0 \<le> d"
    using assms(2,3) optionalNumber_bounds [of "cx_depth cin" "''depth''" 0 10]
    by (cases given) auto
  note sh = buildNodeTree_shape(1) [OF t]
  have "of_nat k < d + 1 \<and>
        (getChildren st (nt_id s) = [] \<longrightarrow> nt_children s = None \<and> nt_child_count s = None) \<and>
        (getChildren st (nt_id s) \<noteq> [] \<and> of_nat k < d \<longrightarrow>
           nt_child_count s = None \<and>
           map_option (map nt_id) (nt_children s) = Some (map n_id (getChildren st (nt_id s)))) \<and>
        (getChildren st (nt_id s) \<noteq> [] \<and> d \<le> of_nat k \<longrightarrow>
           nt_children s = None \<and>
           nt_child_count s = Some (length (getChildren st (nt_id s))))"
    if s: "s \<in> set (nt_level k t)" for k s
  proof -
    from sh s have a: "node_shape st d k s" and b: "k = 0 \<or> of_nat k < d + 1" by auto
    from b d0 have "of_nat k < d + 1" by auto
    with a show ?thesis by (auto simp: node_shape_def Let_def split: if_splits)
  qed
  with sh r show ?thesis by simp
qed

theorem context_children_truncated_at_depth_witness:
  "requireString (cx_node_id \<lparr>cx_node_id = JStr ''r'', cx_depth = JNum 1\<rparr>) ''node_id'' = Inr ''r'' \<and>
   optionalNumber (cx_depth \<lparr>cx_node_id = JStr ''r'', cx_depth = JNum 1\<rparr>) ''depth''
     (Some 0) (Some 10) = Inr (Some 1) \<and>
   getNode demo_store ''r'' = Some (mk_node ''r'' None False) \<and>
   handleContext demo_store \<lparr>cx_node_id = JStr ''r'', cx_depth = JNum 1\<rparr> =
     Inr \<lparr>cr_node = mk_node ''r'' None False, cr_ancestors = [],
          cr_children =
            NodeTree ''r'' ''r'' False JNull
              (Some [NodeTree ''a'' ''a'' False JNull None (Some 1),
                     NodeTree ''d'' ''d'' True JNull None None]) None,
          cr_depends_on = [], cr_depended_by = []\<rparr> \<and>
   (\<exists>r. handleContext demo_store \<lparr>cx_node_id = JStr ''r'', cx_depth = JNum 1\<rparr> = Inr r \<and>
      nt_id (cr_children r) = ''r'' \<and>
     (\<forall>k. \<forall>s\<in>set (nt_level k (cr_children r)).
        of_nat k < (1::rat) + 1 \<and>
        (getChildren demo_store (nt_id s) = [] \<longrightarrow>
           nt_children s = None \<and> nt_child_count s = None) \<and>
        (getChildren demo_store (nt_id s) \<noteq> [] \<and> of_nat k < (1::rat) \<longrightarrow>
           nt_child_count s = None \<and>
           map_option (map nt_id) (nt_children s) =
             Some (map n_id (getChildren demo_store (nt_id s)))) \<and>
        (getChildren demo_store (nt_id s) \<noteq> [] \<and> (1::rat) \<le> of_nat k \<longrightarrow>
           nt_children s = None \<and>
           nt_child_count s = Some (length (getChildren demo_store (nt_id s))))))"
proof -
  let ?cin = "\<lparr>cx_node_id = JStr ''r'', cx_depth = JNum 1\<rparr>"
  have h1: "requireString (cx_node_id ?cin) ''node_id'' = Inr ''r''"
    by (simp add: requireString_def trim_eval)
  have h2: "optionalNumber (cx_depth ?cin) ''depth'' (Some 0) (Some 10) = Inr (Some 1)"
    by (simp add: optionalNumber_def)
  have h3: "(1::rat) = (case Some 1 of None \<Rightarrow> 2 | Some x \<Rightarrow> x)" by simp
  have h4: "getNode demo_store ''r'' = Some (mk_node ''r'' None False)"
    by (simp add: getNode_def demo_store_def mk_node_def)
  have v: "handleContext demo_store ?cin =
     Inr \<lparr>cr_node = mk_node ''r'' None False, cr_ancestors = [],
          cr_children =
            NodeTree ''r'' ''r'' False JNull
              (Some [NodeTree ''a'' ''a'' False JNull None (Some 1),
                     NodeTree ''d'' ''d'' True JNull None None]) None,
          cr_depends_on = [], cr_depended_by = []\<rparr>"
    by (simp add: handleContext_def requireString_def trim_eval optionalNumber_def
        getNodeOrThrow_def getNode_def getChildren_def getAncestors_def getEdgesFrom_def
        getEdgesTo_def demo_store_def mk_node_def Let_def)
  from context_children_truncated_at_depth [OF h1 h2 h3 h4] h1 h2 h4 v
  show ?thesis by blast
qed

text \<open>
  C2 as stated, with the tree reaching only down to depth \<open>d\<close> for every accepted
  \<open>d\<close>, fails at the accepted depth 3/2: the tree of the small project's root then
  holds the node \<open>b\<close> at depth 2, cut off there with \<^verbatim>\<open>child_count\<close> 1.
\<close>

theorem context_fractional_depth_counterexample:
  "optionalNumber (JNum (3 / 2)) ''depth'' (Some 0) (Some 10) = Inr (Some (3 / 2)) \<and>
   handleContext demo_store \<lparr>cx_node_id = JStr ''r'', cx_depth = JNum (3 / 2)\<rparr> =
     Inr \<lparr>cr_node = mk_node ''r'' None False, cr_ancestors = [],
          cr_children =
            NodeTree ''r'' ''r'' False JNull
              (Some [NodeTree ''a'' ''a'' False JNull
                       (Some [NodeTree ''b'' ''b'' True JNull None (Some 1)]) None,
                     NodeTree ''d'' ''d'' True JNull None None]) None,
          cr_depends_on = [], cr_depended_by = []\<rparr> \<and>
   nt_level (Suc (Suc 0))
     (NodeTree ''r'' ''r'' False JNull
        (Some [NodeTree ''a'' ''a'' False JNull
                 (Some [NodeTree ''b'' ''b'' True JNull None (Some 1)]) None,
               NodeTree ''d'' ''d'' True JNull None None]) None) =
     [NodeTree ''b'' ''b'' True JNull None (Some 1)] \<and>
   (3 / 2 :: rat) < of_nat (Suc (Suc 0))"
  by (simp add: handleContext_def requireString_def trim_eval optionalNumber_def
      getNodeOrThrow_def getNode_def getChildren_def getAncestors_def getEdgesFrom_def
      getEdgesTo_def demo_store_def mk_node_def Let_def)

section \<open>The context operation: dependency satisfaction\<close>

text \<open>
  C3. For an existing node \<open>N\<close> the context operation succeeds, returns \<open>N\<close>, and
  reports one entry for each outgoing and each incoming \<^verbatim>\<open>depends_on\<close> edge of
  \<open>N\<close>, in the order of the edges. The entry of an outgoing edge is satisfied exactly
  when the edge's target is a stored node that is resolved; the entry of an incoming edge
  is satisfied exactly when \<open>N\<close> itself is resolved.
\<close>

theorem context_dependency_satisfaction:
  assumes "requireString (cx_node_id cin) ''node_id'' = Inr i"
    and "optionalNumber (cx_depth cin) ''depth'' (Some 0) (Some 10) = Inr given"
    and "getNode st i = Some n"
  shows "\<exists>r. handleContext st cin = Inr r \<and> cr_node r = n \<and>
     map d_node (cr_depends_on r) =
       map (\<lambda>e. getNode st (e_to_node e)) (getEdgesFrom st i ''depends_on'') \<and>
     map d_satisfied (cr_depends_on r) =
       map (\<lambda>e. \<exists>t. getNode st (e_to_node e) = Some t \<and> n_resolved t)
         (getEdgesFrom st i ''depends_on'') \<and>
     map d_node (cr_depended_by r) =
       map (\<lambda>e. getNode st (e_from_node e)) (getEdgesTo st i ''depends_on'') \<and>
     map d_satisfied (cr_depended_by r) =
       map (\<lambda>e. n_resolved n) (getEdgesTo st i ''depends_on'')"
proof -
  have sat: "(case getNode st j of None \<Rightarrow> False | Some t \<Rightarrow> n_resolved t) =
      (\<exists>t. getNode st j = Some t \<and> n_resolved t)" for j
    by (cases "getNode st j") auto
  from handleContext_success [OF assms] show ?thesis
    by (auto simp: comp_def sat)
qed

theorem context_dependency_satisfaction_witness:
  "requireString (cx_node_id \<lparr>cx_node_id = JStr ''a'', cx_depth = JUndefined\<rparr>) ''node_id'' =
     Inr ''a'' \<and>
   optionalNumber (cx_depth \<lparr>cx_node_id = JStr ''a'', cx_depth = JUndefined\<rparr>) ''depth''
     (Some 0) (Some 10) = Inr None \<and>
   getNode demo_store ''a'' = Some (mk_node ''a'' (Some ''r'') False) \<and>
   getEdgesFrom demo_store ''a'' ''depends_on'' =
     [\<lparr>e_from_node = ''a'', e_to_node = ''d'', e_type = ''depends_on'', e_created_at = ''t0''\<rparr>] \<and>
   getEdgesTo demo_store ''a'' ''depends_on'' =
     [\<lparr>e_from_node = ''c'', e_to_node = ''a'', e_type = ''depends_on'', e_created_at = ''t0''\<rparr>] \<and>
   (\<exists>r. handleContext demo_store \<lparr>cx_node_id = JStr ''a'', cx_depth = JUndefined\<rparr> = Inr r \<and>
      cr_node r = mk_node ''a'' (Some ''r'') False \<and>
      map d_node (cr_depends_on r) = [Some (mk_node ''d'' (Some ''r'') True)] \<and>
      map d_satisfied (cr_depends_on r) = [True] \<and>
      map d_node (cr_depended_by r) = [Some (mk_node ''c'' (Some ''b'') True)] \<and>
      map d_satisfied (cr_depended_by r) = [False])"
proof -
  let ?cin = "\<lparr>cx_node_id = JStr ''a'', cx_depth = JUndefined\<rparr>"
  have h1: "requireString (cx_node_id ?cin) ''node_id'' = Inr ''a''"
    by (simp add: requireString_def trim_eval)
  have h2: "optionalNumber (cx_depth ?cin) ''depth'' (Some 0) (Some 10) = Inr None"
    by (simp add: optionalNumber_def)
  have h3: "getNode demo_store ''a'' = Some (mk_node ''a'' (Some ''r'') False)"
    by (simp add: getNode_def demo_store_def mk_node_def)
  have e1: "getEdgesFrom demo_store ''a'' ''depends_on'' =
     [\<lparr>e_from_node = ''a'', e_to_node = ''d'', e_type = ''depends_on'', e_created_at = ''t0''\<rparr>]"
    by (simp add: getEdgesFrom_def demo_store_def)
  have e2: "getEdgesTo demo_store ''a'' ''depends_on'' =
     [\<lparr>e_from_node = ''c'', e_to_node = ''a'', e_type = ''depends_on'', e_created_at = ''t0''\<rparr>]"
    by (simp add: getEdgesTo_def demo_store_def)
  have g1: "getNode demo_store ''d'' = Some (mk_node ''d'' (Some ''r'') True)"
    by (simp add: getNode_def demo_store_def mk_node_def)
  have g2: "getNode demo_store ''c'' = Some (mk_node ''c'' (Some ''b'') True)"
    by (simp add: getNode_def demo_store_def mk_node_def)
  have r1: "n_resolved (mk_node ''d'' (Some ''r'') True)" "\<not> n_resolved (mk_node ''a'' (Some ''r'') False)"
    by (simp_all add: mk_node_def)
  from context_dependency_satisfaction [OF h1 h2 h3]
  have "\<exists>r. handleContext demo_store ?cin = Inr r \<and>
      cr_node r = mk_node ''a'' (Some ''r'') False \<and>
      map d_node (cr_depends_on r) = [Some (mk_node ''d'' (Some ''r'') True)] \<and>
      map d_satisfied (cr_depends_on r) = [True] \<and>
      map d_node (cr_depended_by r) = [Some (mk_node ''c'' (Some ''b'') True)] \<and>
      map d_satisfied (cr_depended_by r) = [False]"
    by (simp add: e1 e2 g1 g2 r1)
  with h1 h2 h3 e1 e2 show ?thesis by blast
qed

section \<open>Lookups of absent entities\<close>

text \<open>
  C5. A request that passes validation and names a node id with no stored node makes the
  context operation fail with the engine error \<open>node_not_found\<close>; one that names a
  project with no root node makes the tree operation (in both versions) fail with the
  engine error \<open>project_not_found\<close>. Each error carries its code and a message that
  names what was looked up. Both operations are functions of the store that return no
  store: they write nothing.
\<close>

theorem absent_lookup_not_found:
  "(requireString (cx_node_id cin) ''node_id'' = Inr i \<and>
    optionalNumber (cx_depth cin) ''depth'' (Some 0) (Some 10) = Inr given \<and>
    getNode st i = None \<longrightarrow>
      handleContext st cin = Inl (EngineError ''node_not_found'' (''Node not found: '' @ i))) \<and>
   (requireString (ti_project tin) ''project'' = Inr p \<and>
    optionalNumber (ti_depth tin) ''depth'' (Some 1) (Some 20) = Inr given' \<and>
    getProjectRoot st p = None \<longrightarrow>
      handleTree_v1 st tin = Inl (EngineError ''project_not_found'' (''Project not found: '' @ p)) \<and>
      (\<exists>msg. handleTree st tin = Inl (EngineError ''project_not_found'' msg) \<and>
             prefix (''Project not found: '' @ p) msg))"
  by (auto simp: handleContext_def handleTree_def handleTree_v1_def getNodeOrThrow_def Let_def)

theorem absent_lookup_not_found_witness:
  "requireString (cx_node_id \<lparr>cx_node_id = JStr ''zz'', cx_depth = JNum 3\<rparr>) ''node_id'' = Inr ''zz'' \<and>
   optionalNumber (cx_depth \<lparr>cx_node_id = JStr ''zz'', cx_depth = JNum 3\<rparr>) ''depth''
     (Some 0) (Some 10) = Inr (Some 3) \<and>
   getNode demo_store ''zz'' = None \<and>
   handleContext demo_store \<lparr>cx_node_id = JStr ''zz'', cx_depth = JNum 3\<rparr> =
     Inl (EngineError ''node_not_found'' ''Node not found: zz'') \<and>
   requireString (ti_project \<lparr>ti_project = JStr ''nope'', ti_depth = JNull\<rparr>) ''project'' =
     Inr ''nope'' \<and>
   optionalNumber (ti_depth \<lparr>ti_project = JStr ''nope'', ti_depth = JNull\<rparr>) ''depth''
     (Some 1) (Some 20) = Inr None \<and>
   getProjectRoot demo_store ''nope'' = None \<and>
   handleTree_v1 demo_store \<lparr>ti_project = JStr ''nope'', ti_depth = JNull\<rparr> =
     Inl (EngineError ''project_not_found'' ''Project not found: nope'') \<and>
   (\<exists>msg. handleTree demo_store \<lparr>ti_project = JStr ''nope'', ti_depth = JNull\<rparr> =
            Inl (EngineError ''project_not_found'' msg) \<and>
          prefix ''Project not found: nope'' msg)"
proof -
  let ?cin = "\<lparr>cx_node_id = JStr ''zz'', cx_depth = JNum 3\<rparr>"
  let ?tin = "\<lparr>ti_project = JStr ''nope'', ti_depth = JNull\<rparr>"
  have h1: "requireString (cx_node_id ?cin) ''node_id'' = Inr ''zz''"
    by (simp add: requireString_def trim_eval)
  have h2: "optionalNumber (cx_depth ?cin) ''depth'' (Some 0) (Some 10) = Inr (Some 3)"
    by (simp add: optionalNumber_def)
  have h3: "getNode demo_store ''zz'' = None"
    by (simp add: getNode_def demo_store_def mk_node_def)
  have h4: "requireString (ti_project ?tin) ''project'' = Inr ''nope''"
    by (simp add: requireString_def trim_eval)
  have h5: "optionalNumber (ti_depth ?tin) ''depth'' (Some 1) (Some 20) = Inr None"
    by (simp add: optionalNumber_def)
  have h6: "getProjectRoot demo_store ''nope'' = None"
    by (simp add: getProjectRoot_def demo_store_def mk_node_def)
  from absent_lookup_not_found [of ?cin "''zz''" "Some 3" demo_store ?tin "''nope''" None]
    h1 h2 h3 h4 h5 h6
  show ?thesis by simp
qed

section \<open>The open operation\<close>

lemma find_append_fresh: "find P xs = None \<Longrightarrow> P y \<Longrightarrow> find P (xs @ [y]) = Some y"
  by (induct xs) (auto split: if_splits)

text \<open>
  C4. With a request whose fields pass validation: called without a project (the field
  is absent, \<open>null\<close> or the empty string) the open operation returns the list of all
  projects and leaves the store as it is. Called with a project name \<open>P\<close> that has no
  root node it appends exactly one node to the store, a root of \<open>P\<close> (no parent) whose
  summary is the supplied goal, or \<open>P\<close> when no goal is given, and returns that root with
  the summary of the project in the new store. Called with a project that has a root it
  leaves the store as it is and returns that root with the project summary.
\<close>

theorem open_lists_or_creates_root_once:
  assumes "optionalString (oi_project oin) ''project'' = Inr project"
    and "optionalString (oi_goal oin) ''goal'' = Inr goal"
  shows "(project = None \<or> project = Some [] \<longrightarrow>
            handleOpen gps new_id now st oin agent = (Inr (ProjectList (listProjects st)), st)) \<and>
         (\<forall>p. project = Some p \<and> p \<noteq> [] \<and> getProjectRoot st p = None \<longrightarrow>
            (\<exists>r st'. handleOpen gps new_id now st oin agent =
                        (Inr (ProjectOpened p r (gps st' p)), st') \<and>
                     nodes st' = nodes st @ [r] \<and> edges st' = edges st \<and>
                     n_project r = p \<and> n_parent r = None \<and>
                     n_summary r = (case goal of None \<Rightarrow> p | Some g \<Rightarrow> g) \<and>
                     getProjectRoot st' p = Some r)) \<and>
         (\<forall>p r. project = Some p \<and> p \<noteq> [] \<and> getProjectRoot st p = Some r \<longrightarrow>
            handleOpen gps new_id now st oin agent = (Inr (ProjectOpened p r (gps st p)), st))"
proof (intro conjI allI impI)
  assume "project = None \<or> project = Some []"
  with assms show "handleOpen gps new_id now st oin agent = (Inr (ProjectList (listProjects st)), st)"
    by (auto simp: handleOpen_def)
next
  fix p
  assume a: "project = Some p \<and> p \<noteq> [] \<and> getProjectRoot st p = None"
  let ?r = "\<lparr>n_id = new_id, n_project = p, n_parent = None,
             n_summary = (case goal of None \<Rightarrow> p | Some g \<Rightarrow> g), n_resolved = False,
             n_state = JNull, n_properties = [], n_discovery = Some ''pending'',
             n_blocked = False, n_created_by = agent, n_created_at = now,
             n_updated_at = now\<rparr>"
  let ?st' = "st\<lparr>nodes := nodes st @ [?r]\<rparr>"
  from a have none: "find (\<lambda>n. n_project n = p \<and> n_parent n = None) (nodes st) = None"
    by (simp add: getProjectRoot_def)
  have "find (\<lambda>n. n_project n = p \<and> n_parent n = None) (nodes st @ [?r]) = Some ?r"
    using none by (rule find_append_fresh) simp
  then have root': "getProjectRoot ?st' p = Some ?r"
    by (simp add: getProjectRoot_def)
  have "handleOpen gps new_id now st oin agent = (Inr (ProjectOpened p ?r (gps ?st' p)), ?st')"
    using assms a by (simp add: handleOpen_def createNode_def Let_def)
  with root' show "\<exists>r st'. handleOpen gps new_id now st oin agent =
                        (Inr (ProjectOpened p r (gps st' p)), st') \<and>
                     nodes st' = nodes st @ [r] \<and> edges st' = edges st \<and>
                     n_project r = p \<and> n_parent r = None \<and>
                     n_summary r = (case goal of None \<Rightarrow> p | Some g \<Rightarrow> g) \<and>
                     getProjectRoot st' p = Some r"
    by (intro exI [of _ ?r] exI [of _ ?st']) simp
next
  fix p r
  assume "project = Some p \<and> p \<noteq> [] \<and> getProjectRoot st p = Some r"
  with assms show "handleOpen gps new_id now st oin agent = (Inr (ProjectOpened p r (gps st p)), st)"
    by (simp add: handleOpen_def)
qed


theorem open_lists_or_creates_root_once_witness:
  "optionalString (oi_project \<lparr>oi_project = JUndefined, oi_goal = JUndefined\<rparr>) ''project'' = Inr None \<and>
   optionalString (oi_goal \<lparr>oi_project = JUndefined, oi_goal = JUndefined\<rparr>) ''goal'' = Inr None \<and>
   handleOpen demo_summary ''n1'' ''t1'' demo_store
       \<lparr>oi_project = JUndefined, oi_goal = JUndefined\<rparr> ''agent'' =
     (Inr (ProjectList (listProjects demo_store)), demo_store) \<and>
   optionalString (oi_project \<lparr>oi_project = JStr ''new'', oi_goal = JStr ''ship it''\<rparr>) ''project'' =
     Inr (Some ''new'') \<and>
   optionalString (oi_goal \<lparr>oi_project = JStr ''new'', oi_goal = JStr ''ship it''\<rparr>) ''goal'' =
     Inr (Some ''ship it'') \<and>
   getProjectRoot demo_store ''new'' = None \<and>
   (\<exists>r st'. handleOpen demo_summary ''n1'' ''t1'' demo_store
               \<lparr>oi_project = JStr ''new'', oi_goal = JStr ''ship it''\<rparr> ''agent'' =
               (Inr (ProjectOpened ''new'' r (demo_summary st' ''new'')), st') \<and>
            nodes st' = nodes demo_store @ [r] \<and> edges st' = edges demo_store \<and>
            n_project r = ''new'' \<and> n_parent r = None \<and> n_summary r = ''ship it'' \<and>
            getProjectRoot st' ''new'' = Some r) \<and>
   optionalString (oi_project \<lparr>oi_project = JStr ''demo'', oi_goal = JNull\<rparr>) ''project'' =
     Inr (Some ''demo'') \<and>
   optionalString (oi_goal \<lparr>oi_project = JStr ''demo'', oi_goal = JNull\<rparr>) ''goal'' = Inr None \<and>
   getProjectRoot demo_store ''demo'' = Some (mk_node ''r'' None False) \<and>
   handleOpen demo_summary ''n1'' ''t1'' demo_store
       \<lparr>oi_project = JStr ''demo'', oi_goal = JNull\<rparr> ''agent'' =
     (Inr (ProjectOpened ''demo'' (mk_node ''r'' None False) (demo_summary demo_store ''demo'')),
      demo_store)"
proof -
  let ?o1 = "\<lparr>oi_project = JUndefined, oi_goal = JUndefined\<rparr>"
  let ?o2 = "\<lparr>oi_project = JStr ''new'', oi_goal = JStr ''ship it''\<rparr>"
  let ?o3 = "\<lparr>oi_project = JStr ''demo'', oi_goal = JNull\<rparr>"
  have a1: "optionalString (oi_project ?o1) ''project'' = Inr None"
    and a2: "optionalString (oi_goal ?o1) ''goal'' = Inr None"
    and b1: "optionalString (oi_project ?o2) ''project'' = Inr (Some ''new'')"
    and b2: "optionalString (oi_goal ?o2) ''goal'' = Inr (Some ''ship it'')"
    and c1: "optionalString (oi_project ?o3) ''project'' = Inr (Some ''demo'')"
    and c2: "optionalString (oi_goal ?o3) ''goal'' = Inr None"
    by (simp_all add: optionalString_def)
  have b3: "getProjectRoot demo_store ''new'' = None"
    by (simp add: getProjectRoot_def demo_store_def mk_node_def)
  have c3: "getProjectRoot demo_store ''demo'' = Some (mk_node ''r'' None False)"
    by (simp add: getProjectRoot_def demo_store_def mk_node_def)
  note w1 = open_lists_or_creates_root_once [OF a1 a2, of demo_summary "''n1''" "''t1''" demo_store "''agent''"]
  note w2 = open_lists_or_creates_root_once [OF b1 b2, of demo_summary "''n1''" "''t1''" demo_store "''agent''"]
  note w3 = open_lists_or_creates_root_once [OF c1 c2, of demo_summary "''n1''" "''t1''" demo_store "''agent''"]
  from w1 have r1: "handleOpen demo_summary ''n1'' ''t1'' demo_store ?o1 ''agent'' =
     (Inr (ProjectList (listProjects demo_store)), demo_store)"
    by simp
  from w2 b3 have r2: "\<exists>r st'. handleOpen demo_summary ''n1'' ''t1'' demo_store ?o2 ''agent'' =
               (Inr (ProjectOpened ''new'' r (demo_summary st' ''new'')), st') \<and>
            nodes st' = nodes demo_store @ [r] \<and> edges st' = edges demo_store \<and>
            n_project r = ''new'' \<and> n_parent r = None \<and> n_summary r = ''ship it'' \<and>
            getProjectRoot st' ''new'' = Some r"
    by simp
  from w3 c3 have r3: "handleOpen demo_summary ''n1'' ''t1'' demo_store ?o3 ''agent'' =
     (Inr (ProjectOpened ''demo'' (mk_node ''r'' None False) (demo_summary demo_store ''demo'')),
      demo_store)"
    by simp
  from a1 a2 b1 b2 b3 c1 c2 c3 r1 r2 r3 show ?thesis by blast
qed

section \<open>The tree operation\<close>

lemma buildTree_erase:
  "erase_progress (fst (fst (buildTree st n cd md stats))) = fst (buildTree_v1 st n cd md stats) \<and>
   snd (buildTree st n cd md stats) = snd (buildTree_v1 st n cd md stats)"
  "map erase_progress (fst (fst (buildTree_loop st cs d md acc stats))) =
     map erase_progress (fst acc) @ fst (buildTree_v1_map st cs d md stats) \<and>
   snd (buildTree_loop st cs d md acc stats) = snd (buildTree_v1_map st cs d md stats)"
proof (induct st n cd md stats and st cs d md acc stats rule: buildTree_buildTree_loop.induct)
  case (1 st n currentDepth maxDepth stats)
  let ?s1 = "stats\<lparr>s_total := s_total stats + 1\<rparr>"
  let ?s2 = "if n_resolved n then ?s1\<lparr>s_resolved := s_resolved ?s1 + 1\<rparr> else ?s1"
  let ?cs = "getChildren st (n_id n)"
  show ?case
  proof (cases "length ?cs \<noteq> 0 \<and> of_nat currentDepth < maxDepth")
    case True
    then have ne: "length ?cs \<noteq> 0" and lt: "of_nat currentDepth < maxDepth" by auto
    note ih = "1.hyps" [OF refl refl refl refl refl ne lt]
    show ?thesis
    proof (cases "n_resolved n")
      case r: True
      with True ih show ?thesis
        by (subst buildTree.simps, subst (1 2) buildTree_v1.simps) (simp add: Let_def split_beta)
    next
      case r: False
      with True ih show ?thesis
        by (subst buildTree.simps, subst (1 2) buildTree_v1.simps) (simp add: Let_def split_beta)
    qed
  next
    case False
    then show ?thesis
      by (subst buildTree.simps, subst (1 2) buildTree_v1.simps) (auto simp: Let_def)
  qed
next
  case (2 st d maxDepth acc stats)
  show ?case by simp
next
  case (3 st child rest d maxDepth ts subtotal subresolved stats)
  obtain t a b s' where c: "buildTree st child d maxDepth stats = ((t, a, b), s')"
    by (metis prod.exhaust)
  obtain t1 s1 where c1: "buildTree_v1 st child d maxDepth stats = (t1, s1)"
    by (metis prod.exhaust)
  from "3.hyps"(1) c c1 have e: "erase_progress t = t1" "s' = s1" by simp_all
  from "3.hyps"(2) [OF c [symmetric] refl refl] c c1 e show ?case
    by (simp add: split_beta)
qed


lemma buildTree_shape:
  "tn_id (fst (fst (buildTree st n cd md stats))) = n_id n \<and>
   (\<forall>k. \<forall>s\<in>set (tn_level k (fst (fst (buildTree st n cd md stats)))).
      tree_node_shape st md (cd + k) s)"
  "(\<forall>t\<in>set (fst acc). \<forall>k. \<forall>s\<in>set (tn_level k t). tree_node_shape st md (d + k) s) \<longrightarrow>
   map tn_id (fst (fst (buildTree_loop st cs d md acc stats))) = map tn_id (fst acc) @ map n_id cs \<and>
   (\<forall>t\<in>set (fst (fst (buildTree_loop st cs d md acc stats))). \<forall>k. \<forall>s\<in>set (tn_level k t).
      tree_node_shape st md (d + k) s)"
proof (induct st n cd md stats and st cs d md acc stats rule: buildTree_buildTree_loop.induct)
  case (1 st n currentDepth maxDepth stats)
  let ?s1 = "stats\<lparr>s_total := s_total stats + 1\<rparr>"
  let ?s2 = "if n_resolved n then ?s1\<lparr>s_resolved := s_resolved ?s1 + 1\<rparr> else ?s1"
  let ?cs = "getChildren st (n_id n)"
  define t where "t = fst (fst (buildTree st n currentDepth maxDepth stats))"
  have "tn_id t = n_id n \<and>
     (\<forall>k. \<forall>s\<in>set (tn_level k t). tree_node_shape st maxDepth (currentDepth + k) s)"
  proof (cases "?cs = []")
    case True
    then have t: "t = TreeNode (n_id n) (n_summary n) (n_resolved n) (n_properties n) None None None"
      unfolding t_def by (subst buildTree.simps) (simp add: Let_def)
    have lv: "k = 0 \<and> s = t" if "s \<in> set (tn_level k t)" for k s
      using that by (cases k) (auto simp: t)
    have sh: "tree_node_shape st maxDepth currentDepth t"
      using True by (simp add: tree_node_shape_def t)
    have "tn_id t = n_id n" by (simp add: t)
    with lv sh show ?thesis by fastforce
  next
    case ne: False
    show ?thesis
    proof (cases "of_nat currentDepth < maxDepth")
      case False
      with ne have t: "t = TreeNode (n_id n) (n_summary n) (n_resolved n) (n_properties n)
          (Some (getSubtreeProgress st (n_id n))) None (Some (length ?cs))"
        unfolding t_def by (subst buildTree.simps) (simp add: Let_def)
      have lv: "k = 0 \<and> s = t" if "s \<in> set (tn_level k t)" for k s
        using that by (cases k) (auto simp: t)
      have sh: "tree_node_shape st maxDepth currentDepth t"
        using False ne by (simp add: tree_node_shape_def t)
      have "tn_id t = n_id n" by (simp add: t)
      with lv sh show ?thesis by fastforce
    next
      case lt: True
      define l where "l = buildTree_loop st ?cs (currentDepth + 1) maxDepth
                  ([], 1, if n_resolved n then 1 else 0) ?s2"
      from ne have ne': "length ?cs \<noteq> 0" by simp
      from "1.hyps" [OF refl refl refl refl refl ne' lt]
      have ids: "map tn_id (fst (fst l)) = map n_id ?cs"
        and ih: "\<forall>t\<in>set (fst (fst l)). \<forall>k. \<forall>s\<in>set (tn_level k t).
                   tree_node_shape st maxDepth (currentDepth + 1 + k) s"
        unfolding l_def by simp_all
      have t: "t = TreeNode (n_id n) (n_summary n) (n_resolved n) (n_properties n)
          (Some \<lparr>pr_resolved = snd (snd (fst l)), pr_total = fst (snd (fst l))\<rparr>)
          (Some (fst (fst l))) None"
        using ne lt unfolding t_def l_def
        by (subst buildTree.simps) (simp add: Let_def split_beta)
      have root: "tree_node_shape st maxDepth currentDepth t"
        using ids ne lt by (simp add: tree_node_shape_def t)
      have "tree_node_shape st maxDepth (currentDepth + k) s"
        if s: "s \<in> set (tn_level k t)" for k s
      proof (cases k)
        case 0
        with s root show ?thesis by simp
      next
        case (Suc j)
        with s obtain t' where "t' \<in> set (fst (fst l))" and "s \<in> set (tn_level j t')"
          by (auto simp: t)
        with ih have "tree_node_shape st maxDepth (currentDepth + 1 + j) s" by blast
        with Suc show ?thesis by simp
      qed
      moreover have "tn_id t = n_id n" by (simp add: t)
      ultimately show ?thesis by blast
    qed
  qed
  then show ?case unfolding t_def .
next
  case (2 st d maxDepth acc stats)
  show ?case by simp
next
  case (3 st child rest d maxDepth ts subtotal subresolved stats)
  obtain t a b s' where c: "buildTree st child d maxDepth stats = ((t, a, b), s')"
    by (metis prod.exhaust)
  from "3.hyps"(1) c have t: "tn_id t = n_id child"
    "\<forall>k. \<forall>s\<in>set (tn_level k t). tree_node_shape st maxDepth (d + k) s" by simp_all
  from "3.hyps"(2) [OF c [symmetric] refl refl] t c show ?case
    by auto
qed


lemma getProjectRoot_SomeD:
  "getProjectRoot st p = Some r \<Longrightarrow> r \<in> set (nodes st) \<and> n_project r = p \<and> n_parent r = None"
  by (auto simp: getProjectRoot_def find_Some_iff)

lemma handleTree_success:
  assumes "requireString (ti_project tin) ''project'' = Inr p"
    and "optionalNumber (ti_depth tin) ''depth'' (Some 1) (Some 20) = Inr given"
    and "getProjectRoot st p = Some rt"
  shows "handleTree st tin =
     (let b = buildTree st rt 0 (case given of None \<Rightarrow> 10 | Some x \<Rightarrow> x)
                \<lparr>s_total = 0, s_resolved = 0\<rparr>
      in Inr \<lparr>tr_project = p, tr_tree = fst (fst b),
              tr_stats = \<lparr>ts_total = s_total (snd b), ts_resolved = s_resolved (snd b),
                          ts_unresolved = int (s_total (snd b)) - int (s_resolved (snd b))\<rparr>\<rparr>)"
    and "handleTree_v1 st tin =
     (let b = buildTree_v1 st rt 0 (case given of None \<Rightarrow> 10 | Some x \<Rightarrow> x)
                \<lparr>s_total = 0, s_resolved = 0\<rparr>
      in Inr \<lparr>tr_project = p, tr_tree = fst b,
              tr_stats = \<lparr>ts_total = s_total (snd b), ts_resolved = s_resolved (snd b),
                          ts_unresolved = int (s_total (snd b)) - int (s_resolved (snd b))\<rparr>\<rparr>)"
  using assms
  by (simp_all add: handleTree_def handleTree_v1_def Let_def split_beta
      del: buildTree.simps buildTree_v1.simps)

text \<open>
  C1, as amended. The claim holds of the later version of the tree operation, the one
  whose nodes carry a \<^verbatim>\<open>progress\<close> field: for a project with a root and an accepted
  depth \<open>d\<close> (a number from 1 to 20, or 10 when none is given) it succeeds, and in the
  tree it returns every node that has children in the store and lies at a depth
  \<open>k \<ge> d\<close> is cut off: it has no \<^verbatim>\<open>children\<close> array, its \<^verbatim>\<open>child_count\<close>
  is the number of its immediate children, and its \<^verbatim>\<open>progress\<close> is the
  \<open>{resolved, total}\<close> that the aggregate subtree-progress query gives for it, the
  count over its whole subtree in the store. Conversely every node of the tree that
  carries a \<^verbatim>\<open>child_count\<close> reports that aggregate progress. The earlier version
  (\<^verbatim>\<open>tools/tree.ts\<close>) succeeds on the same request and returns the same tree with
  the \<^verbatim>\<open>progress\<close> fields left out: its cut-off nodes carry their
  \<^verbatim>\<open>child_count\<close> and no counts of the subtree.
\<close>

theorem truncated_subtree_progress_is_aggregate:
  assumes "requireString (ti_project tin) ''project'' = Inr p"
    and "optionalNumber (ti_depth tin) ''depth'' (Some 1) (Some 20) = Inr given"
    and "d = (case given of None \<Rightarrow> 10 | Some x \<Rightarrow> x)"
    and "getProjectRoot st p = Some rt"
  shows "\<exists>r r1. handleTree st tin = Inr r \<and> tn_id (tr_tree r) = n_id rt \<and>
     (\<forall>k. \<forall>s\<in>set (tn_level k (tr_tree r)).
        (getChildren st (tn_id s) \<noteq> [] \<and> d \<le> of_nat k \<longrightarrow>
           tn_children s = None \<and>
           tn_child_count s = Some (length (getChildren st (tn_id s))) \<and>
           tn_progress s = Some (getSubtreeProgress st (tn_id s))) \<and>
        (tn_child_count s \<noteq> None \<longrightarrow>
           tn_children s = None \<and>
           tn_progress s = Some (getSubtreeProgress st (tn_id s)))) \<and>
     handleTree_v1 st tin = Inr r1 \<and> tr_tree r1 = erase_progress (tr_tree r)"
proof -
  define b where "b = buildTree st rt 0 d \<lparr>s_total = 0, s_resolved = 0\<rparr>"
  define b1 where "b1 = buildTree_v1 st rt 0 d \<lparr>s_total = 0, s_resolved = 0\<rparr>"
  from handleTree_success(1) [OF assms(1,2,4)] assms(3)
  have r: "handleTree st tin =
      Inr \<lparr>tr_project = p, tr_tree = fst (fst b),
              tr_stats = \<lparr>ts_total = s_total (snd b), ts_resolved = s_resolved (snd b),
                          ts_unresolved = int (s_total (snd b)) - int (s_resolved (snd b))\<rparr>\<rparr>"
    unfolding b_def by (simp add: Let_def del: buildTree.simps)
  from handleTree_success(2) [OF assms(1,2,4)] assms(3)
  have r1: "handleTree_v1 st tin =
      Inr \<lparr>tr_project = p, tr_tree = fst b1,
              tr_stats = \<lparr>ts_total = s_total (snd b1), ts_resolved = s_resolved (snd b1),
                          ts_unresolved = int (s_total (snd b1)) - int (s_resolved (snd b1))\<rparr>\<rparr>"
    unfolding b1_def by (simp add: Let_def del: buildTree_v1.simps)
  from buildTree_erase(1) [of st rt 0 d "\<lparr>s_total = 0, s_resolved = 0\<rparr>"]
  have e: "fst b1 = erase_progress (fst (fst b))"
    unfolding b_def b1_def by (simp del: buildTree.simps buildTree_v1.simps)
  from buildTree_shape(1) [of st rt 0 d "\<lparr>s_total = 0, s_resolved = 0\<rparr>"]
  have i: "tn_id (fst (fst b)) = n_id rt"
    and sh: "\<And>k s. s \<in> set (tn_level k (fst (fst b))) \<Longrightarrow> tree_node_shape st d k s"
    unfolding b_def by (simp_all del: buildTree.simps)
  have "(getChildren st (tn_id s) \<noteq> [] \<and> d \<le> of_nat k \<longrightarrow>
           tn_children s = None \<and>
           tn_child_count s = Some (length (getChildren st (tn_id s))) \<and>
           tn_progress s = Some (getSubtreeProgress st (tn_id s))) \<and>
        (tn_child_count s \<noteq> None \<longrightarrow>
           tn_children s = None \<and>
           tn_progress s = Some (getSubtreeProgress st (tn_id s)))"
    if "s \<in> set (tn_level k (fst (fst b)))" for k s
    using sh [OF that] by (auto simp: tree_node_shape_def Let_def split: if_splits)
  with r r1 e i show ?thesis by simp
qed

text \<open>
  C10. For a project with a root and an accepted depth both versions of the tree
  operation succeed; they return the same project name and the same stats, and the tree
  of the later version with its \<^verbatim>\<open>progress\<close> fields left out is the tree of the
  earlier one: the same ids, summaries, resolved flags, properties, children and
  \<^verbatim>\<open>child_count\<close>s.
\<close>

theorem tree_versions_agree_up_to_progress:
  assumes "requireString (ti_project tin) ''project'' = Inr p"
    and "optionalNumber (ti_depth tin) ''depth'' (Some 1) (Some 20) = Inr given"
    and "getProjectRoot st p = Some rt"
  shows "\<exists>r r1. handleTree st tin = Inr r \<and> handleTree_v1 st tin = Inr r1 \<and>
     tr_project r = p \<and> tr_project r1 = p \<and> tr_stats r = tr_stats r1 \<and>
     erase_progress (tr_tree r) = tr_tree r1"
proof -
  let ?d = "case given of None \<Rightarrow> 10 | Some x \<Rightarrow> x"
  define b where "b = buildTree st rt 0 ?d \<lparr>s_total = 0, s_resolved = 0\<rparr>"
  define b1 where "b1 = buildTree_v1 st rt 0 ?d \<lparr>s_total = 0, s_resolved = 0\<rparr>"
  from buildTree_erase(1) [of st rt 0 ?d "\<lparr>s_total = 0, s_resolved = 0\<rparr>"]
  have e: "erase_progress (fst (fst b)) = fst b1" "snd b = snd b1"
    unfolding b_def b1_def by (simp_all del: buildTree.simps buildTree_v1.simps)
  from handleTree_success [OF assms]
  have "handleTree st tin =
      Inr \<lparr>tr_project = p, tr_tree = fst (fst b),
              tr_stats = \<lparr>ts_total = s_total (snd b), ts_resolved = s_resolved (snd b),
                          ts_unresolved = int (s_total (snd b)) - int (s_resolved (snd b))\<rparr>\<rparr>"
    and "handleTree_v1 st tin =
      Inr \<lparr>tr_project = p, tr_tree = fst b1,
              tr_stats = \<lparr>ts_total = s_total (snd b1), ts_resolved = s_resolved (snd b1),
                          ts_unresolved = int (s_total (snd b1)) - int (s_resolved (snd b1))\<rparr>\<rparr>"
    unfolding b_def b1_def by (simp_all add: Let_def del: buildTree.simps buildTree_v1.simps)
  with e show ?thesis by simp
qed


lemma demo_tree_request:
  "requireString (ti_project \<lparr>ti_project = JStr ''demo'', ti_depth = JNum 1\<rparr>) ''project'' =
     Inr ''demo''"
  "optionalNumber (ti_depth \<lparr>ti_project = JStr ''demo'', ti_depth = JNum 1\<rparr>) ''depth''
     (Some 1) (Some 20) = Inr (Some 1)"
  "getProjectRoot demo_store ''demo'' = Some (mk_node ''r'' None False)"
  by (simp_all add: requireString_def trim_eval optionalNumber_def
      getProjectRoot_def demo_store_def mk_node_def)

lemma demo_tree_value:
  "handleTree demo_store \<lparr>ti_project = JStr ''demo'', ti_depth = JNum 1\<rparr> =
     Inr \<lparr>tr_project = ''demo'',
          tr_tree =
            TreeNode ''r'' ''r'' False [] (Some \<lparr>pr_resolved = 3, pr_total = 5\<rparr>)
              (Some [TreeNode ''a'' ''a'' False [] (Some \<lparr>pr_resolved = 2, pr_total = 3\<rparr>)
                       None (Some 1),
                     TreeNode ''d'' ''d'' True [] None None None])
              None,
          tr_stats = \<lparr>ts_total = 3, ts_resolved = 1, ts_unresolved = 2\<rparr>\<rparr>"
  by (simp add: handleTree_def requireString_def trim_eval optionalNumber_def
      getProjectRoot_def getChildren_def getSubtreeProgress_def getNode_def
      demo_store_def mk_node_def Let_def)

lemma demo_tree_v1_value:
  "handleTree_v1 demo_store \<lparr>ti_project = JStr ''demo'', ti_depth = JNum 1\<rparr> =
     Inr \<lparr>tr_project = ''demo'',
          tr_tree =
            TreeNode_v1 ''r'' ''r'' False []
              (Some [TreeNode_v1 ''a'' ''a'' False [] None (Some 1),
                     TreeNode_v1 ''d'' ''d'' True [] None None])
              None,
          tr_stats = \<lparr>ts_total = 3, ts_resolved = 1, ts_unresolved = 2\<rparr>\<rparr>"
  by (simp add: handleTree_v1_def requireString_def trim_eval optionalNumber_def
      getProjectRoot_def getChildren_def demo_store_def mk_node_def Let_def)


theorem truncated_subtree_progress_is_aggregate_witness:
  "requireString (ti_project \<lparr>ti_project = JStr ''demo'', ti_depth = JNum 1\<rparr>) ''project'' =
     Inr ''demo'' \<and>
   optionalNumber (ti_depth \<lparr>ti_project = JStr ''demo'', ti_depth = JNum 1\<rparr>) ''depth''
     (Some 1) (Some 20) = Inr (Some 1) \<and>
   getProjectRoot demo_store ''demo'' = Some (mk_node ''r'' None False) \<and>
   handleTree demo_store \<lparr>ti_project = JStr ''demo'', ti_depth = JNum 1\<rparr> =
     Inr \<lparr>tr_project = ''demo'',
          tr_tree =
            TreeNode ''r'' ''r'' False [] (Some \<lparr>pr_resolved = 3, pr_total = 5\<rparr>)
              (Some [TreeNode ''a'' ''a'' False [] (Some \<lparr>pr_resolved = 2, pr_total = 3\<rparr>)
                       None (Some 1),
                     TreeNode ''d'' ''d'' True [] None None None])
              None,
          tr_stats = \<lparr>ts_total = 3, ts_resolved = 1, ts_unresolved = 2\<rparr>\<rparr> \<and>
   getSubtreeProgress demo_store ''a'' = \<lparr>pr_resolved = 2, pr_total = 3\<rparr> \<and>
   (\<exists>r r1. handleTree demo_store \<lparr>ti_project = JStr ''demo'', ti_depth = JNum 1\<rparr> = Inr r \<and>
      tn_id (tr_tree r) = n_id (mk_node ''r'' None False) \<and>
     (\<forall>k. \<forall>s\<in>set (tn_level k (tr_tree r)).
        (getChildren demo_store (tn_id s) \<noteq> [] \<and> (1::rat) \<le> of_nat k \<longrightarrow>
           tn_children s = None \<and>
           tn_child_count s = Some (length (getChildren demo_store (tn_id s))) \<and>
           tn_progress s = Some (getSubtreeProgress demo_store (tn_id s))) \<and>
        (tn_child_count s \<noteq> None \<longrightarrow>
           tn_children s = None \<and>
           tn_progress s = Some (getSubtreeProgress demo_store (tn_id s)))) \<and>
      handleTree_v1 demo_store \<lparr>ti_project = JStr ''demo'', ti_depth = JNum 1\<rparr> = Inr r1 \<and>
      tr_tree r1 = erase_progress (tr_tree r))"
proof -
  have d: "(1::rat) = (case Some 1 of None \<Rightarrow> 10 | Some x \<Rightarrow> x)" by simp
  have a: "getSubtreeProgress demo_store ''a'' = \<lparr>pr_resolved = 2, pr_total = 3\<rparr>"
    by (simp add: getSubtreeProgress_def getNode_def getChildren_def demo_store_def mk_node_def
        Let_def)
  from truncated_subtree_progress_is_aggregate
         [OF demo_tree_request(1) demo_tree_request(2) d demo_tree_request(3)]
       demo_tree_request demo_tree_value a
  show ?thesis by blast
qed

text \<open>
  C1 as stated, of every version of the tree operation, fails for the earlier one
  (\<^verbatim>\<open>tools/tree.ts\<close>). For the small project at depth 1 it cuts off the node \<open>a\<close>,
  whose subtree holds 3 nodes, 2 of them resolved, and returns it with
  \<^verbatim>\<open>child_count\<close> 1 and nothing else: a node of that version has no field for the
  counts.
\<close>

theorem earlier_tree_reports_no_progress_counterexample:
  "handleTree_v1 demo_store \<lparr>ti_project = JStr ''demo'', ti_depth = JNum 1\<rparr> =
     Inr \<lparr>tr_project = ''demo'',
          tr_tree =
            TreeNode_v1 ''r'' ''r'' False []
              (Some [TreeNode_v1 ''a'' ''a'' False [] None (Some 1),
                     TreeNode_v1 ''d'' ''d'' True [] None None])
              None,
          tr_stats = \<lparr>ts_total = 3, ts_resolved = 1, ts_unresolved = 2\<rparr>\<rparr> \<and>
   getChildren demo_store ''a'' = [mk_node ''b'' (Some ''a'') True] \<and>
   getSubtreeProgress demo_store ''a'' = \<lparr>pr_resolved = 2, pr_total = 3\<rparr>"
  by (simp add: handleTree_v1_def requireString_def trim_eval optionalNumber_def
      getProjectRoot_def getChildren_def getSubtreeProgress_def getNode_def
      demo_store_def mk_node_def Let_def)

theorem tree_versions_agree_up_to_progress_witness:
  "requireString (ti_project \<lparr>ti_project = JStr ''demo'', ti_depth = JNum 1\<rparr>) ''project'' =
     Inr ''demo'' \<and>
   optionalNumber (ti_depth \<lparr>ti_project = JStr ''demo'', ti_depth = JNum 1\<rparr>) ''depth''
     (Some 1) (Some 20) = Inr (Some 1) \<and>
   getProjectRoot demo_store ''demo'' = Some (mk_node ''r'' None False) \<and>
   handleTree_v1 demo_store \<lparr>ti_project = JStr ''demo'', ti_depth = JNum 1\<rparr> =
     Inr \<lparr>tr_project = ''demo'',
          tr_tree =
            TreeNode_v1 ''r'' ''r'' False []
              (Some [TreeNode_v1 ''a'' ''a'' False [] None (Some 1),
                     TreeNode_v1 ''d'' ''d'' True [] None None])
              None,
          tr_stats = \<lparr>ts_total = 3, ts_resolved = 1, ts_unresolved = 2\<rparr>\<rparr> \<and>
   (\<exists>r r1. handleTree demo_store \<lparr>ti_project = JStr ''demo'', ti_depth = JNum 1\<rparr> = Inr r \<and>
      handleTree_v1 demo_store \<lparr>ti_project = JStr ''demo'', ti_depth = JNum 1\<rparr> = Inr r1 \<and>
      tr_project r = ''demo'' \<and> tr_project r1 = ''demo'' \<and> tr_stats r = tr_stats r1 \<and>
      erase_progress (tr_tree r) = tr_tree r1)"
  using tree_versions_agree_up_to_progress
          [OF demo_tree_request(1) demo_tree_request(2) demo_tree_request(3)]
        demo_tree_request demo_tree_v1_value
  by blast

section \<open>Backup and restore\<close>

lemma pruneBackups_length: "length (pruneBackups bs) \<le> 10"
  by (simp add: pruneBackups_def)

lemma pruneBackups_append: "pruneBackups (pruneBackups xs @ ys) = pruneBackups (xs @ ys)"
  by (cases "length xs \<le> 10") (simp_all add: pruneBackups_def add.commute)

lemma pruneBackups_rev: "rev (pruneBackups bs) = take 10 (rev bs)"
  by (cases "length bs \<le> 10") (simp_all add: pruneBackups_def rev_drop)

lemma backupDb_file:
  "\<not> in_memory d \<Longrightarrow>
     backupDb d stamp tag =
       (Some (stamp @ ''-'' @ tag),
        d\<lparr>db_backups := pruneBackups (db_backups d @
             [\<lparr>b_filename = stamp @ ''-'' @ tag, b_tag = tag, b_image = db_live d\<rparr>])\<rparr>)"
  by (simp add: backupDb_def Let_def)

lemma backupAll_file:
  "\<not> in_memory d \<Longrightarrow> cs \<noteq> [] \<Longrightarrow>
     backupAll d cs =
       d\<lparr>db_backups := pruneBackups (db_backups d @
            map (\<lambda>(s, t). \<lparr>b_filename = s @ ''-'' @ t, b_tag = t, b_image = db_live d\<rparr>) cs)\<rparr>"
proof (induct cs arbitrary: d)
  case Nil
  then show ?case by simp
next
  case (Cons c cs)
  obtain s t where c: "c = (s, t)" by (cases c)
  let ?b = "\<lparr>b_filename = s @ ''-'' @ t, b_tag = t, b_image = db_live d\<rparr>"
  let ?d1 = "d\<lparr>db_backups := pruneBackups (db_backups d @ [?b])\<rparr>"
  have m: "\<not> in_memory ?d1" using Cons.prems(1) by (simp add: in_memory_def)
  show ?case
  proof (cases "cs = []")
    case True
    with Cons.prems show ?thesis by (simp add: c backupDb_file)
  next
    case False
    from Cons.hyps [OF m False] Cons.prems(1) show ?thesis
      using pruneBackups_append [of "db_backups d @ [?b]"]
      by (simp add: c backupDb_file)
  qed
qed


text \<open>
  C7. After every backup at most 10 backups exist, whatever the tag; for a file-backed
  store the backups that exist afterwards are the 10 most recently created ones, the new
  one first; and 12 backups made in sequence leave exactly the last 10 of them, newest
  first, whatever existed before.
\<close>

theorem backup_retention_keeps_last_ten:
  "length (listBackups (snd (backupDb d stamp tag))) \<le> 10 \<and>
   (\<not> in_memory d \<longrightarrow>
      listBackups (snd (backupDb d stamp tag)) =
        take 10 (\<lparr>b_filename = stamp @ ''-'' @ tag, b_tag = tag, b_image = db_live d\<rparr>
                  # listBackups d)) \<and>
   (\<not> in_memory d \<and> length cs = 12 \<longrightarrow>
      listBackups (backupAll d cs) =
        rev (drop 2 (map (\<lambda>(s, t). \<lparr>b_filename = s @ ''-'' @ t, b_tag = t, b_image = db_live d\<rparr>)
                       cs)))"
proof (intro conjI impI)
  show "length (listBackups (snd (backupDb d stamp tag))) \<le> 10"
    by (cases "in_memory d")
      (simp_all add: backupDb_def listBackups_def in_memory_def Let_def pruneBackups_length)
next
  assume f: "\<not> in_memory d"
  then show "listBackups (snd (backupDb d stamp tag)) =
        take 10 (\<lparr>b_filename = stamp @ ''-'' @ tag, b_tag = tag, b_image = db_live d\<rparr>
                  # listBackups d)"
    by (simp add: backupDb_file listBackups_def in_memory_def pruneBackups_rev)
next
  assume a: "\<not> in_memory d \<and> length cs = 12"
  let ?new = "map (\<lambda>(s, t). \<lparr>b_filename = s @ ''-'' @ t, b_tag = t, b_image = db_live d\<rparr>) cs"
  from a have ne: "cs \<noteq> []" by auto
  from a have "pruneBackups (db_backups d @ ?new) = drop 2 ?new"
    by (simp add: pruneBackups_def)
  with backupAll_file [of d cs] a ne
  show "listBackups (backupAll d cs) = rev (drop 2 ?new)"
    by (simp add: listBackups_def in_memory_def)
qed

lemma digit_char_value:
  "n < 10 \<Longrightarrow> is_digit (digit_char n) \<and> of_char (digit_char n) = 48 + n"
  by (auto simp: digit_char_def is_digit_def less_Suc_eq eval_nat_numeral)

lemma show_nat_digits:
  "show_nat n \<noteq> [] \<and> list_all is_digit (show_nat n) \<and>
   foldl (\<lambda>a c. 10 * a + (of_char c - 48)) 0 (show_nat n) = n"
proof (induct n rule: show_nat.induct)
  case (1 n)
  show ?case
  proof (cases "n < 10")
    case True
    with digit_char_value [of n] show ?thesis by (subst (1 2 3) show_nat.simps) simp
  next
    case False
    have "n mod 10 < 10" by simp
    from digit_char_value [OF this] "1.hyps" [OF False] False show ?thesis
      by (subst (1 2 3) show_nat.simps) simp
  qed
qed

lemma parse_index_show_nat: "parse_index (show_nat n) = Some n"
  using show_nat_digits [of n] by (simp add: parse_index_def)


theorem backup_retention_keeps_last_ten_witness:
  "\<not> in_memory demo_db \<and> length demo_requests = 12 \<and>
   length (listBackups (snd (backupDb demo_db ''09'' ''manual''))) \<le> 10 \<and>
   map b_filename (listBackups (snd (backupDb demo_db ''09'' ''manual''))) =
     [''09-manual'', ''02-snap'', ''01-daily''] \<and>
   map b_filename (listBackups (backupAll demo_db demo_requests)) =
     [''21-test-11'', ''20-test-10'', ''19-test-09'', ''18-test-08'', ''17-test-07'',
      ''16-test-06'', ''15-test-05'', ''14-test-04'', ''13-test-03'', ''12-test-02'']"
proof -
  have m: "\<not> in_memory demo_db" by (simp add: in_memory_def demo_db_def)
  have l: "length demo_requests = 12" by (simp add: demo_requests_def)
  have lb: "listBackups demo_db =
     [\<lparr>b_filename = ''02-snap'', b_tag = ''snap'', b_image = demo_store\<rparr>,
      \<lparr>b_filename = ''01-daily'', b_tag = ''daily'', b_image = \<lparr>nodes = [], edges = []\<rparr>\<rparr>]"
    by (simp add: listBackups_def in_memory_def demo_db_def)
  note w1 = backup_retention_keeps_last_ten [of demo_db "''09''" "''manual''" demo_requests]
  from w1 have a: "length (listBackups (snd (backupDb demo_db ''09'' ''manual''))) \<le> 10"
    by blast
  from w1 m have "listBackups (snd (backupDb demo_db ''09'' ''manual'')) =
        take 10 (\<lparr>b_filename = ''09'' @ ''-'' @ ''manual'', b_tag = ''manual'',
                   b_image = db_live demo_db\<rparr> # listBackups demo_db)"
    by blast
  then have b: "map b_filename (listBackups (snd (backupDb demo_db ''09'' ''manual''))) =
     [''09-manual'', ''02-snap'', ''01-daily'']"
    by (simp add: lb)
  from w1 m l have "listBackups (backupAll demo_db demo_requests) =
        rev (drop 2 (map (\<lambda>(s, t). \<lparr>b_filename = s @ ''-'' @ t, b_tag = t,
                                     b_image = db_live demo_db\<rparr>) demo_requests))"
    by blast
  then have c: "map b_filename (listBackups (backupAll demo_db demo_requests)) =
     [''21-test-11'', ''20-test-10'', ''19-test-09'', ''18-test-08'', ''17-test-07'',
      ''16-test-06'', ''15-test-05'', ''14-test-04'', ''13-test-03'', ''12-test-02'']"
    by (simp add: demo_requests_def)
  from m l a b c show ?thesis by blast
qed

lemma restoreDb_unresolved:
  "resolveBackup d target = None \<Longrightarrow>
     restoreDb d target =
       (Inl (EngineError ''backup_not_found'' (''Backup not found: '' @ target)), d)"
  by (simp add: restoreDb_def)

lemma find_SomeD: "find P xs = Some x \<Longrightarrow> x \<in> set xs \<and> P x"
  by (induct xs) (auto split: if_splits)

lemma find_filename_None:
  "target \<notin> b_filename ` set bs \<Longrightarrow> find (\<lambda>b. b_filename b = target) bs = None"
  by (auto simp: find_None_iff)

text \<open>
  C8. For a file-backed store, the target that is the decimal numeral of an index \<open>i\<close>
  from 1 to the number of backups restores the \<open>i\<close>-th most recent backup, so that
  \<open>1\<close> restores the most recently created one; a target that is no numeral and is the
  filename of a backup restores a backup of that name. A restore that resolves replaces
  the live image by the backup's contents and changes nothing else. A target that is
  neither the filename of a backup nor an index in range fails with \<open>backup_not_found\<close>
  and leaves the store, its live image included, as it was.
\<close>

theorem restore_resolves_filename_or_index:
  "(\<not> in_memory d \<and> 1 \<le> i \<and> i \<le> length (db_backups d) \<longrightarrow>
      restoreDb d (show_nat i) =
        (Inr (b_filename (listBackups d ! (i - 1))),
         d\<lparr>db_live := b_image (listBackups d ! (i - 1))\<rparr>)) \<and>
   (\<not> in_memory d \<and> db_backups d \<noteq> [] \<longrightarrow>
      restoreDb d ''1'' =
        (Inr (b_filename (last (db_backups d))), d\<lparr>db_live := b_image (last (db_backups d))\<rparr>)) \<and>
   (\<not> in_memory d \<and> parse_index target = None \<and> target \<in> b_filename ` set (db_backups d) \<longrightarrow>
      (\<exists>b. b \<in> set (db_backups d) \<and> b_filename b = target \<and>
           restoreDb d target = (Inr target, d\<lparr>db_live := b_image b\<rparr>))) \<and>
   (target \<notin> b_filename ` set (listBackups d) \<and>
    (\<forall>j. parse_index target = Some j \<longrightarrow> j < 1 \<or> length (listBackups d) < j) \<longrightarrow>
      restoreDb d target =
        (Inl (EngineError ''backup_not_found'' (''Backup not found: '' @ target)), d))"
proof (intro conjI impI)
  assume a: "\<not> in_memory d \<and> 1 \<le> i \<and> i \<le> length (db_backups d)"
  then show "restoreDb d (show_nat i) =
        (Inr (b_filename (listBackups d ! (i - 1))),
         d\<lparr>db_live := b_image (listBackups d ! (i - 1))\<rparr>)"
    by (simp add: restoreDb_def resolveBackup_def parse_index_show_nat listBackups_def Let_def)
next
  assume a: "\<not> in_memory d \<and> db_backups d \<noteq> []"
  have one: "''1'' = show_nat 1" by (simp add: show_nat.simps digit_char_def)
  from a have "rev (db_backups d) ! 0 = last (db_backups d)"
    by (simp add: last_conv_nth rev_nth)
  with a show "restoreDb d ''1'' =
        (Inr (b_filename (last (db_backups d))), d\<lparr>db_live := b_image (last (db_backups d))\<rparr>)"
    unfolding one
    by (simp add: restoreDb_def resolveBackup_def parse_index_show_nat listBackups_def Let_def
        Suc_le_eq)
next
  assume a: "\<not> in_memory d \<and> parse_index target = None \<and> target \<in> b_filename ` set (db_backups d)"
  then have "find (\<lambda>b. b_filename b = target) (rev (db_backups d)) \<noteq> None"
    by (auto simp: find_None_iff)
  then obtain b where b: "find (\<lambda>b. b_filename b = target) (rev (db_backups d)) = Some b"
    by auto
  then have "b \<in> set (db_backups d) \<and> b_filename b = target"
    by (auto dest: find_SomeD)
  moreover from a b have "restoreDb d target = (Inr target, d\<lparr>db_live := b_image b\<rparr>)"
    using \<open>b \<in> set (db_backups d) \<and> b_filename b = target\<close>
    by (simp add: restoreDb_def resolveBackup_def listBackups_def Let_def)
  ultimately show "\<exists>b. b \<in> set (db_backups d) \<and> b_filename b = target \<and>
           restoreDb d target = (Inr target, d\<lparr>db_live := b_image b\<rparr>)"
    by blast
next
  assume a: "target \<notin> b_filename ` set (listBackups d) \<and>
    (\<forall>j. parse_index target = Some j \<longrightarrow> j < 1 \<or> length (listBackups d) < j)"
  then have "resolveBackup d target = None"
    by (auto simp: resolveBackup_def Let_def find_filename_None split: option.splits)
  then show "restoreDb d target =
        (Inl (EngineError ''backup_not_found'' (''Backup not found: '' @ target)), d)"
    by (rule restoreDb_unresolved)
qed

theorem restore_resolves_filename_or_index_witness:
  "\<not> in_memory demo_db \<and> (1::nat) \<le> 2 \<and> 2 \<le> length (db_backups demo_db) \<and>
   restoreDb demo_db ''2'' =
     (Inr ''01-daily'', demo_db\<lparr>db_live := \<lparr>nodes = [], edges = []\<rparr>\<rparr>) \<and>
   db_backups demo_db \<noteq> [] \<and>
   restoreDb demo_db ''1'' = (Inr ''02-snap'', demo_db\<lparr>db_live := demo_store\<rparr>) \<and>
   parse_index ''02-snap'' = None \<and> ''02-snap'' \<in> b_filename ` set (db_backups demo_db) \<and>
   (\<exists>b. b \<in> set (db_backups demo_db) \<and> b_filename b = ''02-snap'' \<and>
        restoreDb demo_db ''02-snap'' = (Inr ''02-snap'', demo_db\<lparr>db_live := b_image b\<rparr>)) \<and>
   ''nonexistent.db'' \<notin> b_filename ` set (listBackups demo_db) \<and>
   parse_index ''nonexistent.db'' = None \<and>
   restoreDb demo_db ''nonexistent.db'' =
     (Inl (EngineError ''backup_not_found'' ''Backup not found: nonexistent.db''), demo_db)"
proof -
  have m: "\<not> in_memory demo_db" by (simp add: in_memory_def demo_db_def)
  have n: "(1::nat) \<le> 2" "2 \<le> length (db_backups demo_db)" "db_backups demo_db \<noteq> []"
    by (simp_all add: demo_db_def)
  have two: "show_nat 2 = ''2''" by (simp add: show_nat.simps digit_char_def)
  have p1: "parse_index ''02-snap'' = None" and p2: "parse_index ''nonexistent.db'' = None"
    by (simp_all add: parse_index_def is_digit_def)
  have f1: "''02-snap'' \<in> b_filename ` set (db_backups demo_db)"
    and f2: "''nonexistent.db'' \<notin> b_filename ` set (listBackups demo_db)"
    by (simp_all add: demo_db_def listBackups_def in_memory_def)
  note w = restore_resolves_filename_or_index
  from w [of demo_db 2 "''x''"] m n two
  have a: "restoreDb demo_db ''2'' =
     (Inr ''01-daily'', demo_db\<lparr>db_live := \<lparr>nodes = [], edges = []\<rparr>\<rparr>)"
    by (simp add: listBackups_def in_memory_def demo_db_def)
  from w [of demo_db 2 "''x''"] m n
  have b: "restoreDb demo_db ''1'' = (Inr ''02-snap'', demo_db\<lparr>db_live := demo_store\<rparr>)"
    by (simp add: demo_db_def)
  from w [of demo_db 2 "''02-snap''"] m p1 f1
  have c: "\<exists>b. b \<in> set (db_backups demo_db) \<and> b_filename b = ''02-snap'' \<and>
        restoreDb demo_db ''02-snap'' = (Inr ''02-snap'', demo_db\<lparr>db_live := b_image b\<rparr>)"
    by blast
  from w [of demo_db 2 "''nonexistent.db''"] p2 f2
  have e: "restoreDb demo_db ''nonexistent.db'' =
     (Inl (EngineError ''backup_not_found'' ''Backup not found: nonexistent.db''), demo_db)"
    by simp
  from m n a b p1 f1 c f2 p2 e show ?thesis by blast
qed

text \<open>
  C9. Against a purely in-memory store a backup, whatever its tag, returns no destination
  and leaves the store as it is; \<open>backupDb\<close> has no failing result. No backups are
  listed, and a restore, whatever its target, reports \<open>backup_not_found\<close> and replaces
  nothing.
\<close>

theorem in_memory_backup_is_noop:
  "in_memory d \<longrightarrow>
     backupDb d stamp tag = (None, d) \<and> listBackups d = [] \<and>
     restoreDb d target =
       (Inl (EngineError ''backup_not_found'' (''Backup not found: '' @ target)), d)"
  by (simp add: backupDb_def listBackups_def restoreDb_def resolveBackup_def Let_def
      split: option.splits)

theorem in_memory_backup_is_noop_witness:
  "in_memory \<lparr>db_path = '':memory:'', db_live = demo_store, db_backups = []\<rparr> \<and>
   backupDb \<lparr>db_path = '':memory:'', db_live = demo_store, db_backups = []\<rparr> ''09'' ''test'' =
     (None, \<lparr>db_path = '':memory:'', db_live = demo_store, db_backups = []\<rparr>) \<and>
   listBackups \<lparr>db_path = '':memory:'', db_live = demo_store, db_backups = []\<rparr> = [] \<and>
   restoreDb \<lparr>db_path = '':memory:'', db_live = demo_store, db_backups = []\<rparr> ''1'' =
     (Inl (EngineError ''backup_not_found'' ''Backup not found: 1''),
      \<lparr>db_path = '':memory:'', db_live = demo_store, db_backups = []\<rparr>)"
proof -
  have m: "in_memory \<lparr>db_path = '':memory:'', db_live = demo_store, db_backups = []\<rparr>"
    by (simp add: in_memory_def)
  from in_memory_backup_is_noop
         [of "\<lparr>db_path = '':memory:'', db_live = demo_store, db_backups = []\<rparr>"
             "''09''" "''test''" "''1''"] m
  show ?thesis by simp
qed

section \<open>The tree operation: progress of every node\<close>

lemma subtree_unfold:
  assumes "settled st" and "n \<in> set (nodes st)"
  shows "subtree st (length (nodes st)) n =
     n # concat (map (subtree st (length (nodes st))) (getChildren st (n_id n)))"
proof -
  from assms have "subtree st (length (nodes st)) n = subtree st (Suc (length (nodes st))) n"
    by (simp add: settled_def list_all_iff)
  then show ?thesis by simp
qed

lemma sub_total_unfold:
  assumes "settled st" and "n \<in> set (nodes st)"
  shows "sub_total st n = 1 + sum_list (map (sub_total st) (getChildren st (n_id n)))"
    and "sub_resolved st n =
      (if n_resolved n then 1 else 0) + sum_list (map (sub_resolved st) (getChildren st (n_id n)))"
  unfolding sub_total_def sub_resolved_def
  by (subst subtree_unfold [OF assms], simp add: length_concat filter_concat comp_def)+

lemma getSubtreeProgress_stored:
  assumes "unique_ids st" and "n \<in> set (nodes st)"
  shows "getSubtreeProgress st (n_id n) = \<lparr>pr_resolved = sub_resolved st n, pr_total = sub_total st n\<rparr>"
  using assms
  by (simp add: getSubtreeProgress_def unique_ids_def list_all_iff sub_total_def sub_resolved_def
      Let_def)

lemma buildTree_progress:
  "unique_ids st \<Longrightarrow> settled st \<Longrightarrow> n \<in> set (nodes st) \<Longrightarrow>
     fst (snd (fst (buildTree st n cd md stats))) = sub_total st n \<and>
     snd (snd (fst (buildTree st n cd md stats))) = sub_resolved st n \<and>
     (\<forall>k. \<forall>s\<in>set (tn_level k (fst (fst (buildTree st n cd md stats)))). full_progress st s)"
  "unique_ids st \<Longrightarrow> settled st \<Longrightarrow> set cs \<subseteq> set (nodes st) \<Longrightarrow>
     (\<forall>t\<in>set (fst acc). \<forall>k. \<forall>s\<in>set (tn_level k t). full_progress st s) \<Longrightarrow>
     fst (snd (fst (buildTree_loop st cs d md acc stats))) =
       fst (snd acc) + sum_list (map (sub_total st) cs) \<and>
     snd (snd (fst (buildTree_loop st cs d md acc stats))) =
       snd (snd acc) + sum_list (map (sub_resolved st) cs) \<and>
     (\<forall>t\<in>set (fst (fst (buildTree_loop st cs d md acc stats))). \<forall>k. \<forall>s\<in>set (tn_level k t).
        full_progress st s)"
proof (induct st n cd md stats and st cs d md acc stats rule: buildTree_buildTree_loop.induct)
  case (1 st n currentDepth maxDepth stats)
  let ?s1 = "stats\<lparr>s_total := s_total stats + 1\<rparr>"
  let ?s2 = "if n_resolved n then ?s1\<lparr>s_resolved := s_resolved ?s1 + 1\<rparr> else ?s1"
  let ?cs = "getChildren st (n_id n)"
  note u = "1.prems"(1) and se = "1.prems"(2) and mem = "1.prems"(3)
  note unf = sub_total_unfold [OF se mem]
  define b where "b = buildTree st n currentDepth maxDepth stats"
  define t where "t = fst (fst b)"
  have "fst (snd (fst b)) = sub_total st n \<and> snd (snd (fst b)) = sub_resolved st n \<and>
     (\<forall>k. \<forall>s\<in>set (tn_level k t). full_progress st s)"
  proof (cases "?cs = []")
    case True
    then have bv: "b = ((TreeNode (n_id n) (n_summary n) (n_resolved n) (n_properties n) None None None,
        1, if n_resolved n then 1 else 0), ?s2)"
      unfolding b_def by (subst buildTree.simps) (simp add: Let_def)
    have lv: "k = 0 \<and> s = t" if "s \<in> set (tn_level k t)" for k s
      using that by (cases k) (auto simp: t_def bv)
    have "full_progress st t" using True by (simp add: full_progress_def t_def bv)
    with lv have "\<forall>k. \<forall>s\<in>set (tn_level k t). full_progress st s" by fastforce
    with True unf show ?thesis by (simp add: bv)
  next
    case ne: False
    show ?thesis
    proof (cases "of_nat currentDepth < maxDepth")
      case False
      let ?p = "getSubtreeProgress st (n_id n)"
      from ne False have bv: "b = ((TreeNode (n_id n) (n_summary n) (n_resolved n) (n_properties n)
          (Some ?p) None (Some (length ?cs)), pr_total ?p, pr_resolved ?p), ?s2)"
        unfolding b_def by (subst buildTree.simps) (simp add: Let_def)
      have lv: "k = 0 \<and> s = t" if "s \<in> set (tn_level k t)" for k s
        using that by (cases k) (auto simp: t_def bv)
      have "full_progress st t" using ne by (simp add: full_progress_def t_def bv)
      with lv have "\<forall>k. \<forall>s\<in>set (tn_level k t). full_progress st s" by fastforce
      then show ?thesis
        by (simp add: bv getSubtreeProgress_stored [OF u mem])
    next
      case lt: True
      define l where "l = buildTree_loop st ?cs (currentDepth + 1) maxDepth
                  ([], 1, if n_resolved n then 1 else 0) ?s2"
      from ne have ne': "length ?cs \<noteq> 0" by simp
      have sub: "set ?cs \<subseteq> set (nodes st)" by (auto simp: getChildren_def)
      from "1.hyps" [OF refl refl refl refl refl ne' lt u se sub]
      have tot: "fst (snd (fst l)) = 1 + sum_list (map (sub_total st) ?cs)"
        and res: "snd (snd (fst l)) =
                    (if n_resolved n then 1 else 0) + sum_list (map (sub_resolved st) ?cs)"
        and ih: "\<forall>t\<in>set (fst (fst l)). \<forall>k. \<forall>s\<in>set (tn_level k t). full_progress st s"
        unfolding l_def by simp_all
      have bv: "b = ((TreeNode (n_id n) (n_summary n) (n_resolved n) (n_properties n)
          (Some \<lparr>pr_resolved = snd (snd (fst l)), pr_total = fst (snd (fst l))\<rparr>)
          (Some (fst (fst l))) None, fst (snd (fst l)), snd (snd (fst l))), snd l)"
        using ne lt unfolding b_def l_def
        by (subst buildTree.simps) (simp add: Let_def split_beta)
      have root: "full_progress st t"
        using ne tot res unf
        by (simp add: full_progress_def t_def bv getSubtreeProgress_stored [OF u mem])
      have "full_progress st s" if s: "s \<in> set (tn_level k t)" for k s
      proof (cases k)
        case 0
        with s root show ?thesis by simp
      next
        case (Suc j)
        with s obtain t' where "t' \<in> set (fst (fst l))" and "s \<in> set (tn_level j t')"
          by (auto simp: t_def bv)
        with ih show ?thesis by blast
      qed
      with tot res unf show ?thesis by (simp add: bv)
    qed
  qed
  then show ?case unfolding t_def b_def .
next
  case (2 st d maxDepth acc stats)
  then show ?case by simp
next
  case (3 st child rest d maxDepth ts subtotal subresolved stats)
  obtain t a b s' where c: "buildTree st child d maxDepth stats = ((t, a, b), s')"
    by (metis prod.exhaust)
  from "3.prems" have mem: "child \<in> set (nodes st)" and sub: "set rest \<subseteq> set (nodes st)" by auto
  from "3.hyps"(1) [OF "3.prems"(1,2) mem] c
  have a: "a = sub_total st child" and b: "b = sub_resolved st child"
    and t: "\<forall>k. \<forall>s\<in>set (tn_level k t). full_progress st s" by simp_all
  have acc: "\<forall>t'\<in>set (fst (ts @ [t], subtotal + a, subresolved + b)).
       \<forall>k. \<forall>s\<in>set (tn_level k t'). full_progress st s"
    using "3.prems"(4) t by auto
  from "3.hyps"(2) [OF c [symmetric] refl refl "3.prems"(1,2) sub acc] c a b show ?case
    by simp
qed


lemma subtree_stable:
  "settled st \<Longrightarrow> n \<in> set (nodes st) \<Longrightarrow>
     subtree st (length (nodes st) + k) n = subtree st (length (nodes st)) n"
proof (induct k arbitrary: n)
  case 0
  show ?case by simp
next
  case (Suc k)
  have "subtree st (length (nodes st) + k) c = subtree st (length (nodes st)) c"
    if "c \<in> set (getChildren st (n_id n))" for c
    using that Suc.hyps [OF Suc.prems(1), of c] by (simp add: getChildren_def)
  then have m: "map (subtree st (length (nodes st) + k)) (getChildren st (n_id n)) =
      map (subtree st (length (nodes st))) (getChildren st (n_id n))"
    by (intro map_cong refl)
  have "subtree st (length (nodes st) + Suc k) n =
      n # concat (map (subtree st (length (nodes st) + k)) (getChildren st (n_id n)))"
    by simp
  also have "\<dots> = n # concat (map (subtree st (length (nodes st))) (getChildren st (n_id n)))"
    by (simp only: m)
  also have "\<dots> = subtree st (length (nodes st)) n"
    by (rule subtree_unfold [OF Suc.prems, symmetric])
  finally show ?case .
qed

text \<open>
  In a store with unique ids in which the descent below every node has settled,
  every node of the tree that the tree operation returns reports the
  exact counts of its whole subtree: a node with children, cut off or not, carries the
  progress that the aggregate query gives for it, and a node without children carries
  none. The counts of the nodes beyond the cutoff thus reach every node above it.
\<close>

theorem tree_progress_counts_whole_subtree:
  assumes "requireString (ti_project tin) ''project'' = Inr p"
    and "optionalNumber (ti_depth tin) ''depth'' (Some 1) (Some 20) = Inr given"
    and "getProjectRoot st p = Some rt"
    and "unique_ids st" and "settled st"
  shows "\<exists>r. handleTree st tin = Inr r \<and>
     (\<forall>k. \<forall>s\<in>set (tn_level k (tr_tree r)).
        tn_progress s =
          (if getChildren st (tn_id s) = [] then None
           else Some (getSubtreeProgress st (tn_id s))))"
proof -
  let ?d = "case given of None \<Rightarrow> 10 | Some x \<Rightarrow> x"
  define b where "b = buildTree st rt 0 ?d \<lparr>s_total = 0, s_resolved = 0\<rparr>"
  from handleTree_success(1) [OF assms(1,2,3)]
  have r: "handleTree st tin =
      Inr \<lparr>tr_project = p, tr_tree = fst (fst b),
              tr_stats = \<lparr>ts_total = s_total (snd b), ts_resolved = s_resolved (snd b),
                          ts_unresolved = int (s_total (snd b)) - int (s_resolved (snd b))\<rparr>\<rparr>"
    unfolding b_def by (simp add: Let_def del: buildTree.simps)
  from assms(3) have mem: "rt \<in> set (nodes st)" by (auto dest: getProjectRoot_SomeD)
  from buildTree_progress(1) [OF assms(4,5) mem, of 0 ?d "\<lparr>s_total = 0, s_resolved = 0\<rparr>"]
  have "\<forall>k. \<forall>s\<in>set (tn_level k (fst (fst b))). full_progress st s"
    unfolding b_def by (simp del: buildTree.simps)
  with r show ?thesis by (simp add: full_progress_def)
qed

lemma demo_store_well_formed: "unique_ids demo_store" "settled demo_store"
  by (simp_all add: unique_ids_def settled_def getNode_def getChildren_def demo_store_def
      mk_node_def)

theorem tree_progress_counts_whole_subtree_witness:
  "requireString (ti_project \<lparr>ti_project = JStr ''demo'', ti_depth = JNum 1\<rparr>) ''project'' =
     Inr ''demo'' \<and>
   optionalNumber (ti_depth \<lparr>ti_project = JStr ''demo'', ti_depth = JNum 1\<rparr>) ''depth''
     (Some 1) (Some 20) = Inr (Some 1) \<and>
   getProjectRoot demo_store ''demo'' = Some (mk_node ''r'' None False) \<and>
   unique_ids demo_store \<and> settled demo_store \<and>
   getSubtreeProgress demo_store ''r'' = \<lparr>pr_resolved = 3, pr_total = 5\<rparr> \<and>
   (\<exists>r. handleTree demo_store \<lparr>ti_project = JStr ''demo'', ti_depth = JNum 1\<rparr> = Inr r \<and>
     (\<forall>k. \<forall>s\<in>set (tn_level k (tr_tree r)).
        tn_progress s =
          (if getChildren demo_store (tn_id s) = [] then None
           else Some (getSubtreeProgress demo_store (tn_id s)))))"
proof -
  have a: "getSubtreeProgress demo_store ''r'' = \<lparr>pr_resolved = 3, pr_total = 5\<rparr>"
    by (simp add: getSubtreeProgress_def getNode_def getChildren_def demo_store_def mk_node_def
        Let_def)
  from tree_progress_counts_whole_subtree
         [OF demo_tree_request(1) demo_tree_request(2) demo_tree_request(3)
             demo_store_well_formed]
       demo_tree_request demo_store_well_formed a
  show ?thesis by blast
qed

text \<open>
  A store whose parent relation has no cycle is settled: a descent of as many levels as
  there are stored nodes would pass through one node twice.
\<close>

lemma level_stored: "0 < k \<Longrightarrow> x \<in> set (level st k n) \<Longrightarrow> x \<in> set (nodes st)"
proof (induct k arbitrary: n)
  case 0
  then show ?case by simp
next
  case (Suc k)
  then obtain c where c: "c \<in> set (getChildren st (n_id n))" and x: "x \<in> set (level st k c)"
    by auto
  show ?case
  proof (cases k)
    case 0
    with c x show ?thesis by (simp add: getChildren_def)
  next
    case (Suc j)
    with Suc.hyps [of c] x show ?thesis by simp
  qed
qed

lemma level_add:
  "x \<in> set (level st (j + k) n) \<longleftrightarrow> (\<exists>y\<in>set (level st j n). x \<in> set (level st k y))"
  by (induct j arbitrary: n) auto

lemma subtree_level_empty:
  "level st (Suc k) n = [] \<Longrightarrow> subtree st (Suc k) n = subtree st k n"
proof (induct k arbitrary: n)
  case 0
  then show ?case by (cases "getChildren st (n_id n)") auto
next
  case (Suc k)
  have "subtree st (Suc k) c = subtree st k c" if "c \<in> set (getChildren st (n_id n))" for c
  proof (rule Suc.hyps)
    from Suc.prems that show "level st (Suc k) c = []" by auto
  qed
  then have "map (subtree st (Suc k)) (getChildren st (n_id n)) =
      map (subtree st k) (getChildren st (n_id n))"
    by (intro map_cong refl)
  then show ?case by (simp only: subtree.simps)
qed

lemma level_path:
  "x \<in> set (level st k n) \<Longrightarrow>
     \<exists>ys. length ys = Suc k \<and> ys ! 0 = n \<and> set (tl ys) \<subseteq> set (nodes st) \<and>
          (\<forall>i j. i < j \<and> j \<le> k \<longrightarrow> ys ! j \<in> set (level st (j - i) (ys ! i)))"
proof (induct k arbitrary: n)
  case 0
  show ?case by (rule exI [of _ "[n]"]) simp
next
  case (Suc k)
  then obtain c where c: "c \<in> set (getChildren st (n_id n))" and x: "x \<in> set (level st k c)"
    by auto
  from Suc.hyps [OF x] obtain ys where ys: "length ys = Suc k" "ys ! 0 = c"
    "set (tl ys) \<subseteq> set (nodes st)"
    "\<forall>i j. i < j \<and> j \<le> k \<longrightarrow> ys ! j \<in> set (level st (j - i) (ys ! i))"
    by blast
  from c have cn: "c \<in> set (nodes st)" by (simp add: getChildren_def)
  from c have c1: "c \<in> set (level st 1 n)" by simp
  from ys(1) have ne: "ys \<noteq> []" by auto
  with ys(2) have hd: "hd ys = c" by (simp add: hd_conv_nth)
  have sub: "set ys \<subseteq> set (nodes st)"
  proof -
    from ne have "ys = hd ys # tl ys" by simp
    then have "set ys = insert (hd ys) (set (tl ys))" by (metis list.simps(15))
    with hd cn ys(3) show ?thesis by simp
  qed
  have "(n # ys) ! j \<in> set (level st (j - i) ((n # ys) ! i))" if ij: "i < j \<and> j \<le> Suc k" for i j
  proof (cases i)
    case 0
    from ij 0 obtain j' where j: "j = Suc j'" by (cases j) auto
    have "ys ! j' \<in> set (level st j' c)"
    proof (cases j')
      case 0
      with ys(2) show ?thesis by simp
    next
      case (Suc m)
      with ij j have "0 < j' \<and> j' \<le> k" by simp
      with ys(4) have "ys ! j' \<in> set (level st (j' - 0) (ys ! 0))" by blast
      then show ?thesis by (simp only: diff_zero ys(2))
    qed
    with c1 have "ys ! j' \<in> set (level st (1 + j') n)"
      unfolding level_add by blast
    with 0 j show ?thesis by simp
  next
    case (Suc i')
    with ij obtain j' where j: "j = Suc j'" by (cases j) auto
    with ij Suc ys(4) show ?thesis by auto
  qed
  with ys(1) sub show ?case
    by (intro exI [of _ "n # ys"]) auto
qed

lemma acyclic_settled:
  assumes "acyclic_parents st"
  shows "settled st"
proof -
  let ?N = "length (nodes st)"
  have "level st ?N n = []" if n: "n \<in> set (nodes st)" for n
  proof (rule ccontr)
    assume "level st ?N n \<noteq> []"
    then obtain x where "x \<in> set (level st ?N n)" by (cases "level st ?N n") auto
    from level_path [OF this] obtain ys where ys: "length ys = Suc ?N" "ys ! 0 = n"
      "set (tl ys) \<subseteq> set (nodes st)"
      "\<forall>i j. i < j \<and> j \<le> ?N \<longrightarrow> ys ! j \<in> set (level st (j - i) (ys ! i))"
      by blast
    from ys(1) have ne: "ys \<noteq> []" by auto
    then have "ys = hd ys # tl ys" by simp
    then have "set ys = insert (hd ys) (set (tl ys))" by (metis list.simps(15))
    moreover from ne ys(2) have "hd ys = n" by (simp add: hd_conv_nth)
    ultimately have sub: "set ys \<subseteq> set (nodes st)" using n ys(3) by simp
    have "\<not> distinct ys"
    proof
      assume "distinct ys"
      then have "card (set ys) = Suc ?N" using ys(1) by (simp add: distinct_card)
      moreover have "card (set ys) \<le> card (set (nodes st))"
        using sub by (simp add: card_mono)
      moreover have "card (set (nodes st)) \<le> ?N" by (rule card_length)
      ultimately show False by simp
    qed
    then obtain i j where ij: "i < j" "j < length ys" "ys ! i = ys ! j"
      by (metis distinct_conv_nth nat_neq_iff)
    from ij ys(1) have "i < j \<and> j \<le> ?N" by simp
    with ys(4) have m: "ys ! j \<in> set (level st (j - i) (ys ! i))" by blast
    from ij sub have "ys ! i \<in> set (nodes st)" by (auto dest: nth_mem)
    with assms ij(1) have "ys ! i \<notin> set (level st (j - i) (ys ! i))"
      by (simp add: acyclic_parents_def)
    with m ij(3) show False by simp
  qed
  then have "level st (Suc ?N) n = []" for n
    by (simp add: getChildren_def)
  then have "subtree st (Suc ?N) n = subtree st ?N n" for n
    by (rule subtree_level_empty)
  then show ?thesis by (simp add: settled_def list_all_iff del: subtree.simps)
qed


corollary tree_progress_in_forest:
  assumes "requireString (ti_project tin) ''project'' = Inr p"
    and "optionalNumber (ti_depth tin) ''depth'' (Some 1) (Some 20) = Inr given"
    and "getProjectRoot st p = Some rt"
    and "unique_ids st" and "acyclic_parents st"
  shows "\<exists>r. handleTree st tin = Inr r \<and>
     (\<forall>k. \<forall>s\<in>set (tn_level k (tr_tree r)).
        tn_progress s =
          (if getChildren st (tn_id s) = [] then None
           else Some (getSubtreeProgress st (tn_id s))))"
  using assms(1-4) acyclic_settled [OF assms(5)]
  by (rule tree_progress_counts_whole_subtree)

end
